theory Spec2Isabelle
  imports Main "HOL-Library.Word"
begin

unbundle bit_operations_syntax

section \<open>Bytes and the SM3 collaborator\<close>

text \<open>
  A \<open>Uint8Array\<close> is a list of 8-bit words. The SM3 hash lives in \<open>./sm3\<close>, which is
  not part of the sources at hand; every function that hashes takes it as the
  parameter \<open>sm3\<close>.
\<close>

type_synonym byte = "8 word"
type_synonym bytes = "byte list"

datatype error = DecodeFailure | InvalidScalar | NoInverse

text \<open>Sequencing of fallible steps: the first exception thrown ends the call.\<close>

definition ebind :: "error + 'a \<Rightarrow> ('a \<Rightarrow> error + 'b) \<Rightarrow> error + 'b" where
  "ebind m f = (case m of Inl e \<Rightarrow> Inl e | Inr v \<Rightarrow> f v)"

section \<open>Hex and string utilities\<close>

text \<open>
  Modelled from the spec: \<open>./utils\<close> (\<open>leftPad\<close>, \<open>hexToArray\<close>, \<open>arrayToHex\<close>,
  \<open>utf8ToHex\<close>, \<open>arrayToUtf8\<close>) and the hex helpers of the curve library
  (\<open>hexToNumber\<close>, \<open>numberToHexUnpadded\<close>, \<open>bytesToHex\<close>) are not among the sources.
  The specification fixes: hex output is lowercase, hex input is read
  case-insensitively, numbers are big-endian and zero-padded on the left, and a hex
  string of the wrong alphabet or length is a decode failure.
  A JavaScript string is modelled by the list of its UTF-8 bytes, one \<open>char\<close> each, so
  that encoding and decoding UTF-8 keep the bytes; \<open>toLowerCase\<close> acts on the ASCII
  letters.
\<close>

definition hexChar :: "nat \<Rightarrow> char" where
  "hexChar d = ''0123456789abcdef'' ! d"

definition hexVal :: "char \<Rightarrow> nat option" where
  "hexVal c =
     (let v = (of_char c :: nat)
      in if 48 \<le> v \<and> v \<le> 57 then Some (v - 48)
         else if 97 \<le> v \<and> v \<le> 102 then Some (v - 87)
         else if 65 \<le> v \<and> v \<le> 70 then Some (v - 55)
         else None)"

fun toString16 :: "nat \<Rightarrow> string" where
  "toString16 n = (if n < 16 then [hexChar n] else toString16 (n div 16) @ [hexChar (n mod 16)])"

declare toString16.simps [simp del]

text \<open>The curve library's \<open>numberToHexUnpadded\<close> pads to an even number of digits.\<close>

definition numberToHexUnpadded :: "nat \<Rightarrow> string" where
  "numberToHexUnpadded num =
     (let hex = toString16 num in if odd (length hex) then CHR ''0'' # hex else hex)"

definition leftPad :: "string \<Rightarrow> nat \<Rightarrow> string" where
  "leftPad input num =
     (if length input \<ge> num then input else replicate (num - length input) CHR ''0'' @ input)"

fun parseHex :: "nat \<Rightarrow> string \<Rightarrow> error + nat" where
  "parseHex acc [] = Inr acc"
| "parseHex acc (c # cs) =
     (case hexVal c of None \<Rightarrow> Inl DecodeFailure | Some v \<Rightarrow> parseHex (16 * acc + v) cs)"

definition hexToNumber :: "string \<Rightarrow> error + nat" where
  "hexToNumber hex = parseHex 0 hex"

fun hexToArray :: "string \<Rightarrow> error + bytes" where
  "hexToArray [] = Inr []"
| "hexToArray [c] = Inl DecodeFailure"
| "hexToArray (c # d # cs) =
     (case (hexVal c, hexVal d) of
        (Some v, Some w) \<Rightarrow> ebind (hexToArray cs) (\<lambda>bs. Inr (of_nat (16 * v + w) # bs))
      | _ \<Rightarrow> Inl DecodeFailure)"

definition byteToHex :: "byte \<Rightarrow> string" where
  "byteToHex b = [hexChar (unat b div 16), hexChar (unat b mod 16)]"

definition bytesToHex :: "bytes \<Rightarrow> string" where
  "bytesToHex bs = concat (map byteToHex bs)"

definition arrayToHex :: "bytes \<Rightarrow> string" where
  "arrayToHex bs = bytesToHex bs"

definition utf8ToBytes :: "string \<Rightarrow> bytes" where
  "utf8ToBytes s = map (\<lambda>c. of_nat (of_char c)) s"

definition utf8ToHex :: "string \<Rightarrow> string" where
  "utf8ToHex s = bytesToHex (utf8ToBytes s)"

definition arrayToUtf8 :: "bytes \<Rightarrow> string" where
  "arrayToUtf8 bs = map (\<lambda>b. char_of (unat b)) bs"

definition toLowerChar :: "char \<Rightarrow> char" where
  "toLowerChar c =
     (let v = (of_char c :: nat) in if 65 \<le> v \<and> v \<le> 90 then char_of (v + 32) else c)"

definition toLowerCase :: "string \<Rightarrow> string" where
  "toLowerCase s = map toLowerChar s"

text \<open>\<open>s.substring(i, j)\<close> and \<open>s.substring(i)\<close> for \<open>0 \<le> i\<close>; JavaScript swaps the
  bounds when \<open>i > j\<close> and clamps both to the length.\<close>

definition substring2 :: "string \<Rightarrow> nat \<Rightarrow> nat \<Rightarrow> string" where
  "substring2 s i j = (let lo = min i j; hi = max i j in take (hi - lo) (drop lo s))"

definition substring1 :: "string \<Rightarrow> nat \<Rightarrow> string" where
  "substring1 s i = drop i s"

section \<open>The key-derivation stream: \<open>xorCipherStream\<close>\<close>

text \<open>
  \<open>ctShift\<close> after the four stores of \<open>nextT\<close>. \<open>ct\<close> is a JavaScript number;
  \<open>ct >> s\<close> takes it modulo \<open>2 ^ 32\<close> first, and the mask keeps eight bits.
\<close>

definition ctShift :: "nat \<Rightarrow> bytes" where
  "ctShift ct =
     [of_nat ((ct div 2 ^ 24) mod 256), of_nat ((ct div 2 ^ 16) mod 256),
      of_nat ((ct div 2 ^ 8) mod 256), of_nat (ct mod 256)]"

text \<open>The closure state of \<open>xorCipherStream\<close>: the counter, the offset and the block.\<close>

record kdf_state =
  ct :: nat
  offset :: nat
  t :: bytes

definition nextT :: "(bytes \<Rightarrow> bytes) \<Rightarrow> bytes \<Rightarrow> bytes \<Rightarrow> kdf_state \<Rightarrow> kdf_state" where
  "nextT sm3 x2 y2 st =
     \<lparr> ct = ct st + 1, offset = 0, t = sm3 (x2 @ y2 @ ctShift (ct st)) \<rparr>"

text \<open>
  One round of the \<open>for\<close> loop per message byte. A read of \<open>t\<close> past its end is
  \<open>undefined\<close> in JavaScript, and \<open>undefined & 0xff\<close> is 0.
\<close>

fun xorLoop :: "(bytes \<Rightarrow> bytes) \<Rightarrow> bytes \<Rightarrow> bytes \<Rightarrow> kdf_state \<Rightarrow> bytes \<Rightarrow> bytes" where
  "xorLoop sm3 x2 y2 st [] = []"
| "xorLoop sm3 x2 y2 st (m # ms) =
     (let st1 = (if offset st = length (t st) then nextT sm3 x2 y2 st else st);
          tb = (if offset st1 < length (t st1) then t st1 ! offset st1 else 0)
      in (m XOR (tb AND 0xff)) # xorLoop sm3 x2 y2 (st1\<lparr>offset := offset st1 + 1\<rparr>) ms)"

definition xorCipherStream :: "(bytes \<Rightarrow> bytes) \<Rightarrow> bytes \<Rightarrow> bytes \<Rightarrow> bytes \<Rightarrow> bytes" where
  "xorCipherStream sm3 x2 y2 msg =
     xorLoop sm3 x2 y2 (nextT sm3 x2 y2 \<lparr> ct = 1, offset = 0, t = [] \<rparr>) msg"

text \<open>
  The stream as the specification words it: block \<open>i\<close> (counted from 0) is the hash of
  \<open>x2 || y2 || ct\<close> with \<open>ct = i + 1\<close> as a 32-bit big-endian integer.
\<close>

definition be32 :: "32 word \<Rightarrow> bytes" where
  "be32 w = [ucast (drop_bit 24 w), ucast (drop_bit 16 w), ucast (drop_bit 8 w), ucast w]"

definition kdf_block :: "(bytes \<Rightarrow> bytes) \<Rightarrow> bytes \<Rightarrow> bytes \<Rightarrow> nat \<Rightarrow> bytes" where
  "kdf_block sm3 x2 y2 i = sm3 (x2 @ y2 @ be32 (of_nat (i + 1)))"

definition stream_byte :: "(bytes \<Rightarrow> bytes) \<Rightarrow> bytes \<Rightarrow> bytes \<Rightarrow> nat \<Rightarrow> byte" where
  "stream_byte sm3 x2 y2 i = kdf_block sm3 x2 y2 (i div 32) ! (i mod 32)"

definition kdf_stream :: "(bytes \<Rightarrow> bytes) \<Rightarrow> bytes \<Rightarrow> bytes \<Rightarrow> nat \<Rightarrow> bytes" where
  "kdf_stream sm3 x2 y2 len =
     take len (concat (map (kdf_block sm3 x2 y2) [0 ..< (len + 31) div 32]))"

section \<open>The collaborators of \<open>sm2/index.ts\<close>\<close>

text \<open>
  The module imports the hash (\<open>./sm3\<close>), the curve and the scalar field (\<open>./ec\<close>) and
  the ASN.1 codec (\<open>./asn1\<close>); none of them is among the sources, so the functions of
  the module take them as one record of parameters. A thrown exception is the
  \<open>Inl\<close> of a result. \<open>decodeEnc\<close> returns the object \<open>{x, y, cipher, hash}\<close>.
\<close>

record encObj =
  enc_x :: nat
  enc_y :: nat
  enc_cipher :: string
  enc_hash :: string

record 'p env =
  sm3 :: "bytes \<Rightarrow> bytes"
  CURVE_n :: int
  CURVE_a :: nat
  CURVE_b :: nat
  BASE :: 'p
  multiply :: "'p \<Rightarrow> int \<Rightarrow> error + 'p"
  padd :: "'p \<Rightarrow> 'p \<Rightarrow> 'p"
  pointX :: "'p \<Rightarrow> nat"
  pointY :: "'p \<Rightarrow> nat"
  fromHex :: "string \<Rightarrow> error + 'p"
  fromAffine :: "nat \<Rightarrow> nat \<Rightarrow> error + 'p"
  field_inv :: "int \<Rightarrow> error + int"
  encodeDer :: "int \<Rightarrow> int \<Rightarrow> string"
  decodeDer :: "string \<Rightarrow> error + int \<times> int"
  encodeEnc :: "nat \<Rightarrow> nat \<Rightarrow> string \<Rightarrow> string \<Rightarrow> string"
  decodeEnc :: "string \<Rightarrow> error + encObj"

text \<open>
  Modelled from the spec: the scalar field \<open>field\<close> of \<open>./ec\<close> is modular arithmetic
  over \<open>n\<close>; \<open>add\<close> and \<open>mul\<close> reduce, \<open>addN\<close>, \<open>subN\<close> and \<open>mulN\<close> do not.
\<close>

definition field_add :: "'p env \<Rightarrow> int \<Rightarrow> int \<Rightarrow> int" where
  "field_add E a b = (a + b) mod CURVE_n E"

definition field_mul :: "'p env \<Rightarrow> int \<Rightarrow> int \<Rightarrow> int" where
  "field_mul E a b = (a * b) mod CURVE_n E"

definition field_addN :: "int \<Rightarrow> int \<Rightarrow> int" where
  "field_addN a b = a + b"

definition field_subN :: "int \<Rightarrow> int \<Rightarrow> int" where
  "field_subN a b = a - b"

definition field_mulN :: "int \<Rightarrow> int \<Rightarrow> int" where
  "field_mulN a b = a * b"

text \<open>
  Modelled from the spec: the uncompressed encoding of a point, \<open>04 || X || Y\<close> with
  each coordinate a fixed 32-byte big-endian integer (\<open>toRawBytes\<close>, \<open>toHex\<close> and
  \<open>getPublicKey\<close> of the curve object).
\<close>

fun numberToBytesBE :: "nat \<Rightarrow> nat \<Rightarrow> bytes" where
  "numberToBytesBE 0 x = []"
| "numberToBytesBE (Suc len) x = numberToBytesBE len (x div 256) @ [of_nat (x mod 256)]"

definition toRawBytes :: "'p env \<Rightarrow> 'p \<Rightarrow> bytes" where
  "toRawBytes E P = 4 # numberToBytesBE 32 (pointX E P) @ numberToBytesBE 32 (pointY E P)"

definition toHex :: "'p env \<Rightarrow> 'p \<Rightarrow> string" where
  "toHex E P = bytesToHex (toRawBytes E P)"

definition getPublicKey :: "'p env \<Rightarrow> string \<Rightarrow> error + bytes" where
  "getPublicKey E privateKey =
     ebind (hexToNumber privateKey) (\<lambda>d.
     ebind (multiply E (BASE E) (int d)) (\<lambda>P. Inr (toRawBytes E P)))"

section \<open>Inputs\<close>

datatype msg = MsgString string | MsgBytes bytes

datatype 'p pubkey = KeyHex string | KeyPoint 'p

datatype hexOrBytes = Hex string | Raw bytes

datatype outputKind = OutputArray | OutputString

datatype plaintext = PlainArray bytes | PlainString string

text \<open>What \<open>generateKeyPairHex\<close> returns: the random source is an input of the model.\<close>

record keypairHex =
  privateKey :: string
  publicKey :: string

record SignaturePoint =
  k :: int
  x1 :: int

definition C1C2C3 :: int where
  "C1C2C3 = 0"

definition coordBytes :: "nat \<Rightarrow> error + bytes" where
  "coordBytes x = hexToArray (leftPad (numberToHexUnpadded x) 64)"

text \<open>The message as bytes and as a string.\<close>

definition msgBytes :: "msg \<Rightarrow> bytes" where
  "msgBytes m = (case m of MsgString str \<Rightarrow> utf8ToBytes str | MsgBytes b \<Rightarrow> b)"

definition msgString :: "msg \<Rightarrow> string" where
  "msgString m = (case m of MsgString str \<Rightarrow> str | MsgBytes b \<Rightarrow> arrayToUtf8 b)"

section \<open>\<open>doEncrypt\<close>\<close>

definition doEncrypt ::
  "'p env \<Rightarrow> keypairHex \<Rightarrow> msg \<Rightarrow> 'p pubkey \<Rightarrow> int \<Rightarrow> bool \<Rightarrow> error + string" where
  "doEncrypt E keypair msg pubKey cipherMode asn1 =
     ebind (case msg of MsgString str \<Rightarrow> hexToArray (utf8ToHex str) | MsgBytes b \<Rightarrow> Inr b) (\<lambda>msgArr.
     ebind (case pubKey of KeyHex h \<Rightarrow> fromHex E h | KeyPoint P \<Rightarrow> Inr P) (\<lambda>publicKeyPoint.
     ebind (hexToNumber (privateKey keypair)) (\<lambda>kk.
     let c1 = publicKey keypair;
         c1 = (if length c1 > 128 then substring1 c1 (length c1 - 128) else c1)
     in
     ebind (multiply E publicKeyPoint (int kk)) (\<lambda>p.
     ebind (coordBytes (pointX E p)) (\<lambda>x2.
     ebind (coordBytes (pointY E p)) (\<lambda>y2.
     let c3 = bytesToHex (sm3 E (x2 @ msgArr @ y2));
         c2 = bytesToHex (xorCipherStream (sm3 E) x2 y2 msgArr)
     in
     if asn1 then
       ebind (fromHex E (publicKey keypair)) (\<lambda>point.
         Inr (if cipherMode = C1C2C3
              then encodeEnc E (pointX E point) (pointY E point) c2 c3
              else encodeEnc E (pointX E point) (pointY E point) c3 c2))
     else Inr (if cipherMode = C1C2C3 then c1 @ c2 @ c3 else c1 @ c3 @ c2)))))))"

section \<open>\<open>doDecrypt\<close>\<close>

text \<open>The framing step of \<open>doDecrypt\<close>: the point \<open>c1\<close> and the strings \<open>c2\<close>, \<open>c3\<close>.\<close>

definition parseCipher ::
  "'p env \<Rightarrow> string \<Rightarrow> int \<Rightarrow> bool \<Rightarrow> error + 'p \<times> string \<times> string" where
  "parseCipher E encryptData cipherMode asn1 =
     (if asn1 then
        ebind (decodeEnc E encryptData) (\<lambda>d.
        ebind (fromAffine E (enc_x d) (enc_y d)) (\<lambda>c1.
          let c3 = enc_hash d; c2 = enc_cipher d
          in Inr (if cipherMode = C1C2C3 then (c1, c3, c2) else (c1, c2, c3))))
      else
        ebind (fromHex E (''04'' @ substring2 encryptData 0 128)) (\<lambda>c1.
          let c3 = substring2 encryptData 128 (128 + 64);
              c2 = substring1 encryptData (128 + 64)
          in Inr (if cipherMode = C1C2C3
                  then (c1, substring2 encryptData 128 (length encryptData - 64),
                        substring1 encryptData (length encryptData - 64))
                  else (c1, c2, c3))))"

definition doDecrypt ::
  "'p env \<Rightarrow> string \<Rightarrow> string \<Rightarrow> int \<Rightarrow> outputKind \<Rightarrow> bool \<Rightarrow> error + plaintext" where
  "doDecrypt E encryptData privKey cipherMode out asn1 =
     ebind (hexToNumber privKey) (\<lambda>privateKeyInteger.
     ebind (parseCipher E encryptData cipherMode asn1) (\<lambda>(c1, c2, c3).
     ebind (hexToArray c2) (\<lambda>msg0.
     ebind (multiply E c1 (int privateKeyInteger)) (\<lambda>p.
     ebind (coordBytes (pointX E p)) (\<lambda>x2.
     ebind (coordBytes (pointY E p)) (\<lambda>y2.
     let msg = xorCipherStream (sm3 E) x2 y2 msg0;
         checkC3 = arrayToHex (sm3 E (x2 @ msg @ y2))
     in
     if checkC3 = toLowerCase c3
     then Inr (case out of OutputArray \<Rightarrow> PlainArray msg | OutputString \<Rightarrow> PlainString (arrayToUtf8 msg))
     else Inr (case out of OutputArray \<Rightarrow> PlainArray [] | OutputString \<Rightarrow> PlainString [])))))))"

section \<open>The identity hash: \<open>getZ\<close>, \<open>getHash\<close>\<close>

definition defaultUserId :: string where
  "defaultUserId = ''1234567812345678''"

definition getZ :: "'p env \<Rightarrow> string \<Rightarrow> string option \<Rightarrow> error + bytes" where
  "getZ E pubKey userIdOpt =
     (let userId = utf8ToHex (case userIdOpt of None \<Rightarrow> defaultUserId | Some u \<Rightarrow> u);
          a = leftPad (numberToHexUnpadded (CURVE_a E)) 64;
          b = leftPad (numberToHexUnpadded (CURVE_b E)) 64;
          gx = leftPad (numberToHexUnpadded (pointX E (BASE E))) 64;
          gy = leftPad (numberToHexUnpadded (pointY E (BASE E))) 64
      in
      ebind (if length pubKey = 128
             then Inr (substring2 pubKey 0 64, substring2 pubKey 64 128)
             else ebind (fromHex E pubKey) (\<lambda>point.
                    Inr (leftPad (numberToHexUnpadded (pointX E point)) 64,
                         leftPad (numberToHexUnpadded (pointY E point)) 64))) (\<lambda>(px, py).
      ebind (hexToArray (userId @ a @ b @ gx @ gy @ px @ py)) (\<lambda>data.
      let entl = length userId * 4
      in Inr (sm3 E ([of_nat ((entl div 2 ^ 8) mod 256), of_nat (entl mod 256)] @ data)))))"

definition getHash :: "'p env \<Rightarrow> hexOrBytes \<Rightarrow> string \<Rightarrow> string option \<Rightarrow> error + string" where
  "getHash E hashHex pubKey userIdOpt =
     ebind (getZ E pubKey userIdOpt) (\<lambda>z.
     ebind (case hashHex of Hex h \<Rightarrow> hexToArray h | Raw b \<Rightarrow> Inr b) (\<lambda>m.
       Inr (bytesToHex (sm3 E (z @ m)))))"

definition getPublicKeyFromPrivateKey :: "'p env \<Rightarrow> string \<Rightarrow> error + string" where
  "getPublicKeyFromPrivateKey E privKey =
     ebind (getPublicKey E privKey) (\<lambda>pubKey. Inr (leftPad (bytesToHex pubKey) 64))"

text \<open>
  The same function in the variant of the module on the big-integer library
  (\<open>src/sm2/index.ts\<close>): \<open>PA = G.multiply(d)\<close>, then \<open>'04' + x + y\<close> with each
  coordinate \<open>leftPad(toString(16), 64)\<close>.
\<close>

definition getPublicKeyFromPrivateKey_jsbn :: "'p env \<Rightarrow> string \<Rightarrow> error + string" where
  "getPublicKeyFromPrivateKey_jsbn E privKey =
     ebind (hexToNumber privKey) (\<lambda>d.
     ebind (multiply E (BASE E) (int d)) (\<lambda>PA.
       let x = leftPad (toString16 (pointX E PA)) 64;
           y = leftPad (toString16 (pointY E PA)) 64
       in Inr (''04'' @ x @ y)))"

definition getPoint :: "'p env \<Rightarrow> keypairHex \<Rightarrow> error + SignaturePoint" where
  "getPoint E keypair =
     ebind (fromHex E (publicKey keypair)) (\<lambda>PA.
     ebind (hexToNumber (privateKey keypair)) (\<lambda>kk.
       Inr \<lparr> k = int kk, x1 = int (pointX E PA) \<rparr>))"

section \<open>\<open>doSignature\<close>\<close>

text \<open>
  One draw of the signing loop: \<open>pointPool.pop()\<close> takes the last entry of a non-empty
  pool, otherwise \<open>getPoint\<close> takes the next key pair of the random source. The random
  source is the list \<open>draws\<close>; \<open>None\<close> says that the loop asks for more draws than
  the list holds.
\<close>

definition takePoint ::
  "'p env \<Rightarrow> SignaturePoint list \<Rightarrow> keypairHex list \<Rightarrow>
     ((error + SignaturePoint) \<times> SignaturePoint list \<times> keypairHex list) option" where
  "takePoint E pointPool draws =
     (if pointPool \<noteq> [] then Some (Inr (last pointPool), butlast pointPool, draws)
      else case draws of [] \<Rightarrow> None | kp # ds \<Rightarrow> Some (getPoint E kp, pointPool, ds))"

text \<open>The two nested \<open>do ... while\<close> loops; the result is \<open>(k, r, s)\<close> of the accepted draw.\<close>

function signLoop ::
  "'p env \<Rightarrow> int \<Rightarrow> int \<Rightarrow> SignaturePoint list \<Rightarrow> keypairHex list \<Rightarrow>
     (error + int \<times> int \<times> int) option" where
  "signLoop E dA e pointPool draws =
     (case takePoint E pointPool draws of
        None \<Rightarrow> None
      | Some (Inl err, pool', draws') \<Rightarrow> Some (Inl err)
      | Some (Inr point, pool', draws') \<Rightarrow>
          (let r = field_add E e (x1 point)
           in if r = 0 \<or> r + k point = CURVE_n E then signLoop E dA e pool' draws'
              else (case field_inv E (field_addN dA 1) of
                      Inl err \<Rightarrow> Some (Inl err)
                    | Inr i \<Rightarrow>
                        (let s = field_mul E i (field_subN (k point) (field_mulN r dA))
                         in if s = 0 then signLoop E dA e pool' draws'
                            else Some (Inr (k point, r, s))))))"
  by pat_completeness auto
termination
  by (relation "measure (\<lambda>(E, dA, e, pointPool, draws). length pointPool + length draws)")
     (auto simp: takePoint_def split: if_splits list.splits)

declare signLoop.simps [simp del]

definition signatureHex :: "int \<Rightarrow> int \<Rightarrow> string" where
  "signatureHex r s =
     leftPad (numberToHexUnpadded (nat r)) 64 @ leftPad (numberToHexUnpadded (nat s)) 64"

definition msgHex :: "msg \<Rightarrow> string" where
  "msgHex m = (case m of MsgString str \<Rightarrow> utf8ToHex str | MsgBytes b \<Rightarrow> arrayToHex b)"

text \<open>The part of \<open>doSignature\<close> before the loop: the scalars \<open>dA\<close> and \<open>e\<close>.\<close>

definition signInputs ::
  "'p env \<Rightarrow> msg \<Rightarrow> string \<Rightarrow> bool \<Rightarrow> string option \<Rightarrow> string option \<Rightarrow> error + int \<times> int" where
  "signInputs E m privKey hash pubKeyOpt userIdOpt =
     ebind (if hash
            then ebind (case pubKeyOpt of
                          Some pk \<Rightarrow> if pk = [] then getPublicKeyFromPrivateKey E privKey else Inr pk
                        | None \<Rightarrow> getPublicKeyFromPrivateKey E privKey) (\<lambda>pk.
                   getHash E (Hex (msgHex m)) pk userIdOpt)
            else Inr (msgHex m)) (\<lambda>hashHex.
     ebind (hexToNumber privKey) (\<lambda>dA.
     ebind (hexToNumber hashHex) (\<lambda>e. Inr (int dA, int e))))"

definition doSignature ::
  "'p env \<Rightarrow> keypairHex list \<Rightarrow> msg \<Rightarrow> string \<Rightarrow> SignaturePoint list \<Rightarrow> bool \<Rightarrow> bool \<Rightarrow>
     string option \<Rightarrow> string option \<Rightarrow> (error + string) option" where
  "doSignature E draws m privKey pointPool der hash pubKeyOpt userIdOpt =
     (case signInputs E m privKey hash pubKeyOpt userIdOpt of
        Inl err \<Rightarrow> Some (Inl err)
      | Inr (dA, e) \<Rightarrow>
          (case signLoop E dA e pointPool draws of
             None \<Rightarrow> None
           | Some (Inl err) \<Rightarrow> Some (Inl err)
           | Some (Inr (kk, r, s)) \<Rightarrow>
               Some (Inr (if der then encodeDer E r s else signatureHex r s))))"

text \<open>
  What the loop has checked of the draw \<open>pt\<close> whose \<open>(r, s)\<close> it returns:
  \<open>r = (e + x1) mod n\<close>, \<open>s = ((1 + dA)\<^sup>-\<^sup>1 (k - r dA)) mod n\<close> with the inverse that
  \<open>field.inv\<close> returned, \<open>r \<noteq> 0\<close>, \<open>s \<noteq> 0\<close> and \<open>r + k \<noteq> n\<close>.
\<close>

definition accepted :: "'p env \<Rightarrow> int \<Rightarrow> int \<Rightarrow> SignaturePoint \<Rightarrow> int \<Rightarrow> int \<Rightarrow> bool" where
  "accepted E dA e pt r s \<longleftrightarrow>
     r = (e + x1 pt) mod CURVE_n E \<and>
     (case field_inv E (dA + 1) of
        Inl err \<Rightarrow> False
      | Inr i \<Rightarrow> s = (i * (k pt - r * dA)) mod CURVE_n E) \<and>
     r \<noteq> 0 \<and> s \<noteq> 0 \<and> r + k pt \<noteq> CURVE_n E"

section \<open>\<open>doVerifySignature\<close>\<close>

text \<open>The recovery of \<open>(r, s)\<close> from the signature string.\<close>

definition parseSignature :: "'p env \<Rightarrow> string \<Rightarrow> bool \<Rightarrow> error + int \<times> int" where
  "parseSignature E signHex der =
     (if der then decodeDer E signHex
      else ebind (hexToNumber (substring2 signHex 0 64)) (\<lambda>r.
           ebind (hexToNumber (substring1 signHex 64)) (\<lambda>s. Inr (int r, int s))))"

text \<open>The check itself, from \<open>t = (r + s) mod n\<close> on.\<close>

definition verifyCore :: "'p env \<Rightarrow> 'p \<Rightarrow> int \<Rightarrow> int \<Rightarrow> int \<Rightarrow> error + bool" where
  "verifyCore E PA e r s =
     (let t = field_add E r s
      in if t = 0 then Inr False
         else ebind (multiply E (BASE E) s) (\<lambda>sG.
              ebind (multiply E PA t) (\<lambda>tP.
              let x1y1 = padd E sG tP;
                  R = field_add E e (int (pointX E x1y1))
              in Inr (r = R))))"

text \<open>The first step of \<open>doVerifySignature\<close>: \<open>hashHex\<close>.\<close>

definition verifyHashHex ::
  "'p env \<Rightarrow> msg \<Rightarrow> 'p pubkey \<Rightarrow> bool \<Rightarrow> string option \<Rightarrow> error + string" where
  "verifyHashHex E m pubKey hash userIdOpt =
     (let publicKeyHex = (case pubKey of KeyHex h \<Rightarrow> h | KeyPoint P \<Rightarrow> toHex E P)
      in if hash
         then getHash E (case m of MsgString str \<Rightarrow> Hex (utf8ToHex str) | MsgBytes b \<Rightarrow> Raw b)
                publicKeyHex userIdOpt
         else Inr (msgHex m))"

definition doVerifySignature ::
  "'p env \<Rightarrow> msg \<Rightarrow> string \<Rightarrow> 'p pubkey \<Rightarrow> bool \<Rightarrow> bool \<Rightarrow> string option \<Rightarrow> error + bool" where
  "doVerifySignature E m signHex pubKey der hash userIdOpt =
     ebind (verifyHashHex E m pubKey hash userIdOpt) (\<lambda>hashHex.
     ebind (parseSignature E signHex der) (\<lambda>(r, s).
     ebind (case pubKey of KeyHex h \<Rightarrow> fromHex E h | KeyPoint P \<Rightarrow> Inr P) (\<lambda>PA.
     ebind (hexToNumber hashHex) (\<lambda>e.
       verifyCore E PA (int e) r s))))"

section \<open>What the module expects of its collaborators\<close>

text \<open>
  The curve, as the specification consumes it: a cyclic group with generator \<open>BASE\<close> and
  order \<open>n\<close>. \<open>emb a\<close> stands for the point \<open>a \<cdot> G\<close>. \<open>multiply\<close> accepts the scalars of
  \<open>[1, n - 1]\<close>, coordinates fit 256 bits, and a point other than the identity
  survives its uncompressed encoding and the passage through its affine coordinates.
\<close>

definition cyclic_curve :: "'p env \<Rightarrow> (int \<Rightarrow> 'p) \<Rightarrow> bool" where
  "cyclic_curve E emb \<longleftrightarrow>
     1 < CURVE_n E \<and> CURVE_n E \<le> 2 ^ 256 \<and>
     BASE E = emb 1 \<and>
     (\<forall>a b. a mod CURVE_n E = b mod CURVE_n E \<longrightarrow> emb a = emb b) \<and>
     (\<forall>a j. 1 \<le> j \<and> j < CURVE_n E \<longrightarrow> multiply E (emb a) j = Inr (emb (a * j))) \<and>
     (\<forall>a b. padd E (emb a) (emb b) = emb (a + b)) \<and>
     (\<forall>a. pointX E (emb a) < 2 ^ 256 \<and> pointY E (emb a) < 2 ^ 256) \<and>
     (\<forall>a. a mod CURVE_n E \<noteq> 0 \<longrightarrow> fromHex E (toHex E (emb a)) = Inr (emb a)) \<and>
     (\<forall>a. a mod CURVE_n E \<noteq> 0 \<longrightarrow>
          fromAffine E (pointX E (emb a)) (pointY E (emb a)) = Inr (emb a))"

text \<open>\<open>field.inv\<close> inverts every scalar that is not a multiple of \<open>n\<close> (\<open>n\<close> is prime).\<close>

definition field_inv_ok :: "'p env \<Rightarrow> bool" where
  "field_inv_ok E \<longleftrightarrow>
     (\<forall>a. a mod CURVE_n E \<noteq> 0 \<longrightarrow> (\<exists>b. field_inv E a = Inr b \<and> (a * b) mod CURVE_n E = 1))"

text \<open>The hash returns 32 bytes.\<close>

definition hash32 :: "'p env \<Rightarrow> bool" where
  "hash32 E \<longleftrightarrow> (\<forall>x. length (sm3 E x) = 32)"

text \<open>
  The ASN.1 codec decodes what it encoded: \<open>encodeEnc(x, y, hash, cipher)\<close> for
  256-bit coordinates and hex strings of whole bytes, \<open>encodeDer(r, s)\<close> for
  non-negative 256-bit integers.
\<close>

definition asn1_enc_ok :: "'p env \<Rightarrow> bool" where
  "asn1_enc_ok E \<longleftrightarrow>
     (\<forall>x y h c. x < 2 ^ 256 \<and> y < 2 ^ 256 \<longrightarrow>
        decodeEnc E (encodeEnc E x y (bytesToHex h) (bytesToHex c))
          = Inr \<lparr> enc_x = x, enc_y = y, enc_cipher = bytesToHex c, enc_hash = bytesToHex h \<rparr>)"

definition asn1_der_ok :: "'p env \<Rightarrow> bool" where
  "asn1_der_ok E \<longleftrightarrow>
     (\<forall>r s. 0 \<le> r \<and> r < 2 ^ 256 \<and> 0 \<le> s \<and> s < 2 ^ 256 \<longrightarrow>
        decodeDer E (encodeDer E r s) = Inr (r, s))"

section \<open>Sample collaborators\<close>

text \<open>
  Stand-ins for running the module on concrete inputs: the integers modulo 11 under
  addition in the role of the curve (generator 1, \<open>j \<cdot> P = j * P mod 11\<close>), and
  fixed-width hex framings in the role of the ASN.1 codec. The stand-in hash is the
  sum of the input bytes followed by the reversed input, cut or zero-filled to 32
  bytes in all.
\<close>

definition sampleHash :: "bytes \<Rightarrow> bytes" where
  "sampleHash bs = sum_list bs # take 31 (rev bs @ replicate 31 0)"

definition sampleFromAffine :: "nat \<Rightarrow> nat \<Rightarrow> error + int" where
  "sampleFromAffine x y =
     (if x < 11 \<and> y = (x * x + 1) mod 11 then Inr (int x) else Inl DecodeFailure)"

definition sampleFromHex :: "string \<Rightarrow> error + int" where
  "sampleFromHex h =
     (if length h = 130 \<and> take 2 h = ''04''
      then ebind (hexToNumber (take 64 (drop 2 h))) (\<lambda>x.
           ebind (hexToNumber (drop 66 h)) (\<lambda>y. sampleFromAffine x y))
      else Inl DecodeFailure)"

definition sampleInv :: "int \<Rightarrow> error + int" where
  "sampleInv a = (if a mod 11 = 0 then Inl NoInverse else Inr ((a mod 11) ^ 9 mod 11))"

definition sampleEncodeDer :: "int \<Rightarrow> int \<Rightarrow> string" where
  "sampleEncodeDer r s =
     bytesToHex (numberToBytesBE 32 (nat r)) @ bytesToHex (numberToBytesBE 32 (nat s))"

definition sampleDecodeDer :: "string \<Rightarrow> error + int \<times> int" where
  "sampleDecodeDer h =
     (if length h = 128
      then ebind (hexToNumber (take 64 h)) (\<lambda>r.
           ebind (hexToNumber (drop 64 h)) (\<lambda>s. Inr (int r, int s)))
      else Inl DecodeFailure)"

definition sampleEncodeEnc :: "nat \<Rightarrow> nat \<Rightarrow> string \<Rightarrow> string \<Rightarrow> string" where
  "sampleEncodeEnc x y h c =
     bytesToHex (numberToBytesBE 32 x) @ bytesToHex (numberToBytesBE 32 y) @ h @ ''|'' @ c"

definition sampleDecodeEnc :: "string \<Rightarrow> error + encObj" where
  "sampleDecodeEnc d =
     ebind (hexToNumber (take 64 d)) (\<lambda>x.
     ebind (hexToNumber (take 64 (drop 64 d))) (\<lambda>y.
       let rest = drop 128 d
       in if CHR ''|'' \<in> set rest
          then Inr \<lparr> enc_x = x, enc_y = y,
                     enc_cipher = tl (dropWhile (\<lambda>c. c \<noteq> CHR ''|'') rest),
                     enc_hash = takeWhile (\<lambda>c. c \<noteq> CHR ''|'') rest \<rparr>
          else Inl DecodeFailure))"

definition sampleEnv :: "int env" where
  "sampleEnv =
     \<lparr> sm3 = sampleHash, CURVE_n = 11, CURVE_a = 0, CURVE_b = 1, BASE = 1,
       multiply = (\<lambda>P j. if 1 \<le> j \<and> j < 11 then Inr ((P * j) mod 11) else Inl InvalidScalar),
       padd = (\<lambda>P Q. (P + Q) mod 11),
       pointX = (\<lambda>P. nat (P mod 11)),
       pointY = (\<lambda>P. (nat (P mod 11) * nat (P mod 11) + 1) mod 11),
       fromHex = sampleFromHex, fromAffine = sampleFromAffine, field_inv = sampleInv,
       encodeDer = sampleEncodeDer, decodeDer = sampleDecodeDer,
       encodeEnc = sampleEncodeEnc, decodeEnc = sampleDecodeEnc \<rparr>"

definition sampleEmb :: "int \<Rightarrow> int" where
  "sampleEmb a = a mod 11"


section \<open>The SM2 curve\<close>

text \<open>
  Modelled from the spec: \<open>sm2Curve\<close> of \<open>./ec\<close> is the 256-bit prime-field curve of the
  SM2 standard, \<open>y\<^sup>2 = x\<^sup>3 + a x + b\<close> over \<open>p\<close> with base point \<open>(gx, gy)\<close> of prime order
  \<open>n\<close>. Points are affine, with the identity apart; the group law is the chord and
  tangent rule, and \<open>multiply\<close> is double-and-add on scalars of \<open>[1, n - 1]\<close>. Only the
  uncompressed form \<open>04 || X || Y\<close> is decoded here. The hash and the ASN.1 codec
  of this environment are the stand-ins above.
\<close>

definition sm2_p :: nat where
  "sm2_p = 0xFFFFFFFEFFFFFFFFFFFFFFFFFFFFFFFFFFFFFFFF00000000FFFFFFFFFFFFFFFF"

definition sm2_a :: nat where
  "sm2_a = 0xFFFFFFFEFFFFFFFFFFFFFFFFFFFFFFFFFFFFFFFF00000000FFFFFFFFFFFFFFFC"

definition sm2_b :: nat where
  "sm2_b = 0x28E9FA9E9D9F5E344D5A9E4BCF6509A7F39789F515AB8F92DDBCBD414D940E93"

definition sm2_n :: nat where
  "sm2_n = 0xFFFFFFFEFFFFFFFFFFFFFFFFFFFFFFFF7203DF6B21C6052B53BBF40939D54123"

definition sm2_gx :: nat where
  "sm2_gx = 0x32C4AE2C1F1981195F9904466A39C9948FE30BBFF2660BE1715A4589334C74C7"

definition sm2_gy :: nat where
  "sm2_gy = 0xBC3736A2F4F6779C59BDCEE36B692153D0A9877CC62A474002DF32E52139F0A0"

datatype sm2_point = PointZero | Point nat nat

definition onCurve :: "nat \<Rightarrow> nat \<Rightarrow> bool" where
  "onCurve x y \<longleftrightarrow> x < sm2_p \<and> y < sm2_p \<and>
     (y * y) mod sm2_p = (x * x * x + sm2_a * x + sm2_b) mod sm2_p"

text \<open>The extended Euclidean algorithm, on the remainders and one cofactor.\<close>

function inv_aux :: "nat \<Rightarrow> nat \<Rightarrow> int \<Rightarrow> int \<Rightarrow> int" where
  "inv_aux r0 r1 t0 t1 =
     (if r1 = 0 then t0 else inv_aux r1 (r0 mod r1) t1 (t0 - int (r0 div r1) * t1))"
  by pat_completeness auto
termination
  by (relation "measure (\<lambda>(r0, r1, t0, t1). r1)") auto

declare inv_aux.simps [simp del]

definition mod_inv :: "nat \<Rightarrow> nat \<Rightarrow> nat" where
  "mod_inv a m = nat (inv_aux m (a mod m) 0 1 mod int m)"

definition sm2_double :: "sm2_point \<Rightarrow> sm2_point" where
  "sm2_double P =
     (case P of
        PointZero \<Rightarrow> PointZero
      | Point x y \<Rightarrow>
          if y = 0 then PointZero
          else let l = ((3 * x * x + sm2_a) * mod_inv (2 * y) sm2_p) mod sm2_p;
                   x3 = (l * l + 2 * (sm2_p - x)) mod sm2_p;
                   y3 = (l * (x + (sm2_p - x3)) + (sm2_p - y)) mod sm2_p
               in Point x3 y3)"

definition sm2_add :: "sm2_point \<Rightarrow> sm2_point \<Rightarrow> sm2_point" where
  "sm2_add P Q =
     (case (P, Q) of
        (PointZero, _) \<Rightarrow> Q
      | (_, PointZero) \<Rightarrow> P
      | (Point xp yp, Point xq yq) \<Rightarrow>
          if xp = xq then (if yp = yq then sm2_double P else PointZero)
          else let l = ((yq + (sm2_p - yp)) * mod_inv (xq + (sm2_p - xp)) sm2_p) mod sm2_p;
                   x3 = (l * l + (sm2_p - xp) + (sm2_p - xq)) mod sm2_p;
                   y3 = (l * (xp + (sm2_p - x3)) + (sm2_p - yp)) mod sm2_p
               in Point x3 y3)"

function sm2_mul :: "sm2_point \<Rightarrow> nat \<Rightarrow> sm2_point" where
  "sm2_mul P j =
     (if j = 0 then PointZero
      else let H = sm2_mul (sm2_double P) (j div 2) in if odd j then sm2_add P H else H)"
  by pat_completeness auto
termination
  by (relation "measure (\<lambda>(P, j). j)") auto

declare sm2_mul.simps [simp del]

definition sm2_fromAffine :: "nat \<Rightarrow> nat \<Rightarrow> error + sm2_point" where
  "sm2_fromAffine x y = (if onCurve x y then Inr (Point x y) else Inl DecodeFailure)"

definition sm2_fromHex :: "string \<Rightarrow> error + sm2_point" where
  "sm2_fromHex h =
     (if length h = 130 \<and> take 2 h = ''04''
      then ebind (hexToNumber (take 64 (drop 2 h))) (\<lambda>x.
           ebind (hexToNumber (drop 66 h)) (\<lambda>y. sm2_fromAffine x y))
      else Inl DecodeFailure)"

definition sm2_x :: "sm2_point \<Rightarrow> nat" where
  "sm2_x P = (case P of PointZero \<Rightarrow> 0 | Point x y \<Rightarrow> x)"

definition sm2_y :: "sm2_point \<Rightarrow> nat" where
  "sm2_y P = (case P of PointZero \<Rightarrow> 0 | Point x y \<Rightarrow> y)"

definition sm2Env :: "sm2_point env" where
  "sm2Env =
     \<lparr> sm3 = sampleHash, CURVE_n = int sm2_n, CURVE_a = sm2_a, CURVE_b = sm2_b,
       BASE = Point sm2_gx sm2_gy,
       multiply = (\<lambda>P j. if 1 \<le> j \<and> j < int sm2_n then Inr (sm2_mul P (nat j))
                          else Inl InvalidScalar),
       padd = sm2_add, pointX = sm2_x, pointY = sm2_y,
       fromHex = sm2_fromHex, fromAffine = sm2_fromAffine,
       field_inv = (\<lambda>a. if a mod int sm2_n = 0 then Inl NoInverse
                         else Inr (int (mod_inv (nat (a mod int sm2_n)) sm2_n))),
       encodeDer = sampleEncodeDer, decodeDer = sampleDecodeDer,
       encodeEnc = sampleEncodeEnc, decodeEnc = sampleDecodeEnc \<rparr>"

section \<open>Properties of the hex utilities\<close>

lemma hexVal_hexChar_all: "\<forall>d \<in> set [0 ..< 16]. hexVal (hexChar d) = Some d"
  by code_simp

lemma hexVal_hexChar: "d < 16 \<Longrightarrow> hexVal (hexChar d) = Some d"
  using hexVal_hexChar_all by simp

lemma ebind_Inr [simp]: "ebind (Inr v) f = f v"
  by (simp add: ebind_def)

lemma ebind_Inl [simp]: "ebind (Inl e) f = Inl e"
  by (simp add: ebind_def)

lemma byte_split: "(of_nat (16 * (unat b div 16) + unat b mod 16) :: byte) = b"
  by simp

lemma hexToArray_byteToHex: "hexToArray (byteToHex b @ cs) = ebind (hexToArray cs) (\<lambda>bs. Inr (b # bs))"
proof -
  have "unat b div 16 < 16"
    using unsigned_less [of b, where 'a = nat] by (simp add: div_less_iff_less_mult del: unsigned_less)
  then show ?thesis
    by (simp add: byteToHex_def hexVal_hexChar)
qed

lemma hexToArray_bytesToHex: "hexToArray (bytesToHex bs) = Inr bs"
  by (induction bs) (simp_all add: bytesToHex_def hexToArray_byteToHex)

lemma bytesToHex_append: "bytesToHex (a @ b) = bytesToHex a @ bytesToHex b"
  by (simp add: bytesToHex_def)

lemma bytesToHex_length: "length (bytesToHex bs) = 2 * length bs"
  by (induction bs) (simp_all add: bytesToHex_def byteToHex_def)

lemma parseHex_append: "parseHex acc (s1 @ s2) = ebind (parseHex acc s1) (\<lambda>a. parseHex a s2)"
  by (induction s1 arbitrary: acc) (simp_all split: option.splits)

lemma parseHex_byte:
  "v < 256 \<Longrightarrow> parseHex acc (byteToHex (of_nat v)) = Inr (256 * acc + v)"
proof -
  assume v: "v < 256"
  then have u: "unat (of_nat v :: byte) = v"
    by (simp add: unat_of_nat)
  have "v div 16 < 16" using v by simp
  then show ?thesis
    by (simp add: byteToHex_def u hexVal_hexChar)
qed

lemma numberToBytesBE_length: "length (numberToBytesBE len x) = len"
  by (induction len arbitrary: x) simp_all

lemma parseHex_numberToBytesBE:
  "parseHex acc (bytesToHex (numberToBytesBE len x)) = Inr (acc * 256 ^ len + x mod 256 ^ len)"
proof (induction len arbitrary: x)
  case 0
  then show ?case by (simp add: bytesToHex_def)
next
  case (Suc len)
  have "x mod 256 ^ Suc len = 256 * (x div 256 mod 256 ^ len) + x mod 256"
    by (simp add: mod_mult2_eq)
  then show ?case
    by (simp add: bytesToHex_append parseHex_append Suc.IH)
       (simp add: bytesToHex_def parseHex_byte algebra_simps)
qed

lemma hexToNumber_numberToBytesBE:
  "x < 256 ^ len \<Longrightarrow> hexToNumber (bytesToHex (numberToBytesBE len x)) = Inr x"
  by (simp add: hexToNumber_def parseHex_numberToBytesBE)


lemma toString16_small: "x < 16 \<Longrightarrow> toString16 x = [hexChar x]"
  by (subst toString16.simps) simp

lemma toString16_step: "16 \<le> x \<Longrightarrow> toString16 x = toString16 (x div 16) @ [hexChar (x mod 16)]"
  by (subst toString16.simps) simp

lemma toString16_byte:
  assumes "256 \<le> x"
  shows "toString16 x = toString16 (x div 256) @ [hexChar (x mod 256 div 16), hexChar (x mod 16)]"
proof -
  have a: "16 \<le> x" and b: "16 \<le> x div 16"
    using assms by simp_all
  have c: "x div 16 div 16 = x div 256"
    by (simp add: div_mult2_eq [symmetric])
  have d: "x div 16 mod 16 = x mod 256 div 16"
  proof -
    have "x mod 256 = 16 * (x div 16 mod 16) + x mod 16"
      using mod_mult2_eq [of x 16 16] by simp
    then show ?thesis by simp
  qed
  show ?thesis
    by (simp add: toString16_step [OF a] toString16_step [OF b] c d)
qed

lemma hexChar_0: "hexChar 0 = CHR ''0''"
  by (simp add: hexChar_def)

lemma byteToHex_of_nat:
  "v < 256 \<Longrightarrow> byteToHex (of_nat v) = [hexChar (v div 16), hexChar (v mod 16)]"
  by (simp add: byteToHex_def unat_of_nat)

lemma leftPad_zeros:
  "m + length s \<le> n \<Longrightarrow> leftPad (replicate m CHR ''0'' @ s) n = leftPad s n"
  by (auto simp add: leftPad_def replicate_add [symmetric])

lemma leftPad_append: "leftPad s n @ u = leftPad (s @ u) (n + length u)"
  by (simp add: leftPad_def)

lemma bytesToHex_numberToBytesBE:
  "x < 256 ^ len \<Longrightarrow>
     bytesToHex (numberToBytesBE len x) = leftPad (if x = 0 then [] else toString16 x) (2 * len)"
proof (induction len arbitrary: x)
  case 0
  then show ?case by (simp add: bytesToHex_def leftPad_def)
next
  case (Suc len)
  define q where "q = x div 256"
  define h1 where "h1 = hexChar (x mod 256 div 16)"
  define h0 where "h0 = hexChar (x mod 16)"
  define dq where "dq = (if q = 0 then [] else toString16 q)"
  define dx where "dx = (if x = 0 then [] else toString16 x)"
  have q: "q < 256 ^ len"
    using Suc.prems by (simp add: q_def less_mult_imp_div_less mult.commute)
  have last2: "byteToHex (of_nat (x mod 256)) = [h1, h0]"
    by (simp add: byteToHex_of_nat mod_mod_cancel h1_def h0_def)
  have "bytesToHex (numberToBytesBE (Suc len) x)
      = bytesToHex (numberToBytesBE len q) @ byteToHex (of_nat (x mod 256))"
    by (simp add: bytesToHex_append q_def) (simp add: bytesToHex_def)
  also have "\<dots> = leftPad dq (2 * len) @ [h1, h0]"
    unfolding last2 dq_def using Suc.IH [OF q] by simp
  also have "\<dots> = leftPad (dq @ [h1, h0]) (2 * Suc len)"
    by (simp add: leftPad_append)
  finally have step: "bytesToHex (numberToBytesBE (Suc len) x) = leftPad (dq @ [h1, h0]) (2 * Suc len)" .
  consider "x = 0" | "0 < x" "x < 16" | "16 \<le> x" "x < 256" | "256 \<le> x"
    by linarith
  then have "leftPad (dq @ [h1, h0]) (2 * Suc len) = leftPad dx (2 * Suc len)"
  proof cases
    case 1
    then have "dq @ [h1, h0] = replicate 2 CHR ''0'' @ dx" "2 + length dx \<le> 2 * Suc len"
      by (simp_all add: dq_def q_def h1_def h0_def dx_def hexChar_0 numeral_2_eq_2)
    then show ?thesis by (simp only: leftPad_zeros)
  next
    case 2
    then have "dq @ [h1, h0] = replicate 1 CHR ''0'' @ dx" "1 + length dx \<le> 2 * Suc len"
      by (simp_all add: dq_def q_def h1_def h0_def dx_def hexChar_0 toString16_small)
    then show ?thesis by (simp only: leftPad_zeros)
  next
    case 3
    then have "x div 16 < 16" by simp
    with 3 have "dq @ [h1, h0] = dx"
      by (simp add: dq_def q_def h1_def h0_def dx_def toString16_step toString16_small)
    then show ?thesis by simp
  next
    case 4
    then have "q \<noteq> 0" "x \<noteq> 0" by (simp_all add: q_def)
    then have "dq @ [h1, h0] = dx"
      using toString16_byte [OF 4] by (simp add: dq_def dx_def h1_def h0_def q_def)
    then show ?thesis by simp
  qed
  then show ?case
    unfolding step dx_def .
qed

lemma toString16_nonempty: "toString16 x \<noteq> []"
  by (subst toString16.simps) simp

lemma leftPad_toString16:
  assumes "x < 256 ^ len" "0 < len"
  shows "leftPad (toString16 x) (2 * len) = bytesToHex (numberToBytesBE len x)"
proof (cases "x = 0")
  case True
  have "replicate (2 * len - 1) CHR ''0'' @ [CHR ''0''] = replicate (2 * len) CHR ''0''"
    using assms(2) by (simp add: replicate_append_same Suc_diff_Suc flip: replicate_Suc)
  then show ?thesis
    using True assms
    by (simp add: bytesToHex_numberToBytesBE leftPad_def toString16_small hexChar_0)
next
  case False
  then show ?thesis
    using assms by (simp add: bytesToHex_numberToBytesBE)
qed

lemma toString16_length:
  assumes "x < 256 ^ len" "0 < len"
  shows "length (toString16 x) \<le> 2 * len"
proof (rule ccontr)
  assume "\<not> length (toString16 x) \<le> 2 * len"
  then have "leftPad (toString16 x) (2 * len) = toString16 x"
    by (simp add: leftPad_def)
  then have "length (toString16 x) = 2 * len"
    using leftPad_toString16 [OF assms]
    by (metis bytesToHex_length numberToBytesBE_length)
  with \<open>\<not> length (toString16 x) \<le> 2 * len\<close> show False by simp
qed

lemma leftPad_numberToHexUnpadded:
  assumes "x < 256 ^ len" "0 < len"
  shows "leftPad (numberToHexUnpadded x) (2 * len) = bytesToHex (numberToBytesBE len x)"
proof -
  have le: "length (toString16 x) \<le> 2 * len"
    by (rule toString16_length [OF assms])
  have "leftPad (CHR ''0'' # toString16 x) (2 * len) = leftPad (toString16 x) (2 * len)"
    if "odd (length (toString16 x))"
  proof -
    from that le have "length (toString16 x) \<noteq> 2 * len"
      by auto
    with le have "1 + length (toString16 x) \<le> 2 * len"
      by simp
    then have "leftPad (replicate 1 CHR ''0'' @ toString16 x) (2 * len) = leftPad (toString16 x) (2 * len)"
      by (rule leftPad_zeros)
    then show ?thesis
      by simp
  qed
  then show ?thesis
    by (simp add: numberToHexUnpadded_def Let_def leftPad_toString16 [OF assms])
qed

lemma coordBytes_eq: "x < 2 ^ 256 \<Longrightarrow> coordBytes x = Inr (numberToBytesBE 32 x)"
  using leftPad_numberToHexUnpadded [of x 32]
  by (simp add: coordBytes_def hexToArray_bytesToHex)

section \<open>Properties of the key-derivation stream\<close>

lemma byte_of_nat_shift:
  "(of_nat ((c div 2 ^ j) mod 256) :: byte) = ucast (drop_bit j (of_nat c :: 32 word))"
  if "j \<le> 24"
proof -
  have "(c div 2 ^ j) mod 256 = take_bit 8 (drop_bit j c)"
    by (simp add: take_bit_eq_mod drop_bit_eq_div)
  then show ?thesis using that
    by (auto intro!: bit_word_eqI simp add: bit_simps)
qed

lemma ctShift_be32: "ctShift c = be32 (of_nat c)"
  using byte_of_nat_shift [of 24 c] byte_of_nat_shift [of 16 c] byte_of_nat_shift [of 8 c]
    byte_of_nat_shift [of 0 c]
  by (simp add: ctShift_def be32_def)

lemma byte_and_ff: "(b::byte) AND 0xff = b"
proof -
  have "(0xff::byte) = - 1" by simp
  then show ?thesis by (simp only: bit.conj_one_right)
qed

lemma xorLoop_length: "length (xorLoop H x2 y2 st ms) = length ms"
  by (induction ms arbitrary: st) (simp_all add: Let_def)

lemma xorLoop_involution: "xorLoop H x2 y2 st (xorLoop H x2 y2 st ms) = ms"
  by (induction ms arbitrary: st) (simp_all add: Let_def xor.assoc)

lemma nextT_block:
  "ct st = b + 2 \<Longrightarrow> nextT H x2 y2 st = \<lparr> ct = b + 3, offset = 0, t = kdf_block H x2 y2 (b + 1) \<rparr>"
  by (simp add: nextT_def kdf_block_def ctShift_be32)

lemma map2_upt_Cons:
  "map2 f (m # ms) (map g [j ..< j + length (m # ms)])
     = f m (g j) # map2 f ms (map g [Suc j ..< Suc j + length ms])"
  by (subst upt_rec) simp

lemma xorLoop_stream:
  assumes len: "\<And>x. length (H x) = 32"
  shows "ct st = b + 2 \<Longrightarrow> t st = kdf_block H x2 y2 b \<Longrightarrow> offset st \<le> 32 \<Longrightarrow>
    xorLoop H x2 y2 st ms =
      map2 (XOR) ms (map (stream_byte H x2 y2)
        [32 * b + offset st ..< 32 * b + offset st + length ms])"
proof (induction ms arbitrary: st b)
  case Nil
  then show ?case by simp
next
  case (Cons m ms)
  have blk: "length (kdf_block H x2 y2 i) = 32" for i
    by (simp add: kdf_block_def len)
  define j where "j = 32 * b + offset st"
  show ?case
  proof (cases "offset st = 32")
    case True
    define st1 where "st1 = nextT H x2 y2 st"
    have st1: "st1 = \<lparr> ct = (b + 1) + 2, offset = 0, t = kdf_block H x2 y2 (b + 1) \<rparr>"
      unfolding st1_def using nextT_block [OF Cons.prems(1)] by simp
    define st2 where "st2 = st1\<lparr>offset := offset st1 + 1\<rparr>"
    have step: "xorLoop H x2 y2 st (m # ms) = (m XOR t st1 ! 0) # xorLoop H x2 y2 st2 ms"
      using True Cons.prems(2) by (simp add: Let_def blk byte_and_ff st1_def [symmetric] st2_def st1)
    have hd: "t st1 ! 0 = stream_byte H x2 y2 j"
      using True by (simp add: st1 stream_byte_def j_def)
    have "xorLoop H x2 y2 st2 ms =
       map2 (XOR) ms (map (stream_byte H x2 y2)
         [32 * (b + 1) + offset st2 ..< 32 * (b + 1) + offset st2 + length ms])"
      by (rule Cons.IH) (simp_all add: st1 st2_def)
    moreover have "32 * (b + 1) + offset st2 = Suc j"
      using True by (simp add: st1 st2_def j_def)
    ultimately have ih: "xorLoop H x2 y2 st2 ms =
       map2 (XOR) ms (map (stream_byte H x2 y2) [Suc j ..< Suc j + length ms])"
      by (simp only:)
    show ?thesis
      unfolding j_def [symmetric] map2_upt_Cons step hd ih ..
  next
    case False
    with Cons.prems have lt: "offset st < 32" by simp
    define st2 where "st2 = st\<lparr>offset := offset st + 1\<rparr>"
    have step: "xorLoop H x2 y2 st (m # ms) = (m XOR t st ! offset st) # xorLoop H x2 y2 st2 ms"
      using lt Cons.prems(2) by (simp add: Let_def blk byte_and_ff st2_def)
    have hd: "t st ! offset st = stream_byte H x2 y2 j"
      using lt Cons.prems by (simp add: stream_byte_def j_def)
    have "xorLoop H x2 y2 st2 ms =
       map2 (XOR) ms (map (stream_byte H x2 y2)
         [32 * b + offset st2 ..< 32 * b + offset st2 + length ms])"
      by (rule Cons.IH) (use Cons.prems lt in \<open>simp_all add: st2_def\<close>)
    moreover have "32 * b + offset st2 = Suc j"
      by (simp add: st2_def j_def)
    ultimately have ih: "xorLoop H x2 y2 st2 ms =
       map2 (XOR) ms (map (stream_byte H x2 y2) [Suc j ..< Suc j + length ms])"
      by (simp only:)
    show ?thesis
      unfolding j_def [symmetric] map2_upt_Cons step hd ih ..
  qed
qed

lemma concat_blocks_length:
  assumes "\<And>i. length (f i) = 32"
  shows "length (concat (map f [0 ..< m])) = 32 * m"
  by (induction m) (simp_all add: assms)

lemma concat_blocks_nth:
  assumes "\<And>i. length (f i) = 32"
  shows "i < 32 * m \<Longrightarrow> concat (map f [0 ..< m]) ! i = f (i div 32) ! (i mod 32)"
proof (induction m)
  case 0
  then show ?case by simp
next
  case (Suc m)
  show ?case
  proof (cases "i < 32 * m")
    case True
    then show ?thesis
      using Suc.IH by (simp add: nth_append concat_blocks_length [OF assms])
  next
    case False
    with Suc.prems have "i div 32 = m" by simp
    moreover have "i - 32 * m = i mod 32"
      using False Suc.prems \<open>i div 32 = m\<close> by (metis minus_mult_div_eq_mod)
    ultimately show ?thesis
      using False by (simp add: nth_append concat_blocks_length [OF assms])
  qed
qed

lemma kdf_stream_bytes:
  assumes len: "\<And>x. length (H x) = 32"
  shows "kdf_stream H x2 y2 n = map (stream_byte H x2 y2) [0 ..< n]"
proof (rule nth_equalityI)
  have blk: "length (kdf_block H x2 y2 i) = 32" for i
    by (simp add: kdf_block_def len)
  show "length (kdf_stream H x2 y2 n) = length (map (stream_byte H x2 y2) [0 ..< n])"
    by (simp add: kdf_stream_def concat_blocks_length [OF blk])
  fix i assume "i < length (kdf_stream H x2 y2 n)"
  then have "i < n" by (simp add: kdf_stream_def)
  then have "i < 32 * ((n + 31) div 32)" by simp
  then show "kdf_stream H x2 y2 n ! i = map (stream_byte H x2 y2) [0 ..< n] ! i"
    using \<open>i < n\<close> by (simp add: kdf_stream_def concat_blocks_nth [OF blk] stream_byte_def)
qed

lemma xorCipherStream_stream:
  assumes len: "\<And>x. length (H x) = 32"
  shows "xorCipherStream H x2 y2 msg = map2 (XOR) msg (kdf_stream H x2 y2 (length msg))"
proof -
  have n0: "nextT H x2 y2 \<lparr> ct = 1, offset = 0, t = [] \<rparr>
      = \<lparr> ct = 0 + 2, offset = 0, t = kdf_block H x2 y2 0 \<rparr>"
    by (simp add: nextT_def kdf_block_def ctShift_be32)
  show ?thesis
    unfolding xorCipherStream_def n0
    by (subst xorLoop_stream [OF len, where b = 0])
       (simp_all add: kdf_stream_bytes [OF len])
qed

lemma xorCipherStream_length: "length (xorCipherStream H x2 y2 msg) = length msg"
  by (simp add: xorCipherStream_def xorLoop_length)

lemma xorCipherStream_involution:
  "xorCipherStream H x2 y2 (xorCipherStream H x2 y2 msg) = msg"
  by (simp add: xorCipherStream_def xorLoop_involution)

lemma sampleHash_length: "length (sampleHash x) = 32"
  by (simp add: sampleHash_def)

text \<open>
  C5. With a hash of 32-byte digests, \<open>xorCipherStream\<close> XORs the message with the
  stream whose block number \<open>i\<close> (from 0) is the hash of \<open>x2 || y2 || ct\<close>, \<open>ct = i + 1\<close>
  as a 32-bit big-endian counter, the bytes taken in order and a new block hashed
  when 32 bytes have been used; and, for any hash, applying it twice with the same
  \<open>(x2, y2)\<close> gives the buffer back.
\<close>

theorem xorCipherStream_kdf:
  assumes "\<forall>x. length (H x) = 32"
  shows "xorCipherStream H x2 y2 msg = map2 (XOR) msg (kdf_stream H x2 y2 (length msg))
       \<and> kdf_stream H x2 y2 (length msg)
           = take (length msg)
               (concat (map (\<lambda>i. H (x2 @ y2 @ be32 (of_nat (i + 1))))
                  [0 ..< (length msg + 31) div 32]))
       \<and> xorCipherStream H x2 y2 (xorCipherStream H x2 y2 msg) = msg"
proof -
  have len: "\<And>x. length (H x) = 32"
    using assms by simp
  have a: "xorCipherStream H x2 y2 msg = map2 (XOR) msg (kdf_stream H x2 y2 (length msg))"
    by (rule xorCipherStream_stream [OF len])
  have "kdf_block H x2 y2 = (\<lambda>i. H (x2 @ y2 @ be32 (of_nat (i + 1))))"
    by (rule ext) (simp only: kdf_block_def)
  then have b: "kdf_stream H x2 y2 (length msg)
           = take (length msg)
               (concat (map (\<lambda>i. H (x2 @ y2 @ be32 (of_nat (i + 1))))
                  [0 ..< (length msg + 31) div 32]))"
    by (simp only: kdf_stream_def)
  have c: "xorCipherStream H x2 y2 (xorCipherStream H x2 y2 msg) = msg"
    by (rule xorCipherStream_involution)
  show ?thesis
    by (intro conjI) (rule a, rule b, rule c)
qed

theorem xorCipherStream_kdf_witness:
  "(\<forall>x. length (sampleHash x) = 32)
   \<and> xorCipherStream sampleHash [1, 2] [3] [5, 6] = [2, 7]
   \<and> xorCipherStream sampleHash [1, 2] [3] (xorCipherStream sampleHash [1, 2] [3] [5, 6]) = [5, 6]"
proof -
  have h: "\<forall>x. length (sampleHash x) = 32"
    by (simp add: sampleHash_length)
  from xorCipherStream_kdf [OF h, of "[1, 2]" "[3]" "[5, 6]"]
  have e1: "xorCipherStream sampleHash [1, 2] [3] [5, 6]
      = map2 (XOR) [5, 6] (kdf_stream sampleHash [1, 2] [3] (length [5 :: byte, 6]))"
    and e3: "xorCipherStream sampleHash [1, 2] [3] (xorCipherStream sampleHash [1, 2] [3] [5, 6])
      = [5, 6]"
    by blast+
  have ks: "kdf_stream sampleHash [1, 2] [3] (length [5 :: byte, 6]) = [7, 1]"
    by (simp add: kdf_stream_def kdf_block_def be32_def sampleHash_def)
  have "xorCipherStream sampleHash [1, 2] [3] [5, 6] = [2, 7]"
    unfolding e1 ks by simp
  with h e3 show ?thesis
    by blast
qed

section \<open>The sample collaborators meet the expectations\<close>

lemma sample_hash32: "hash32 sampleEnv"
  by (simp add: hash32_def sampleEnv_def sampleHash_length)

lemma sample_inv_all: "\<forall>a \<in> set [1 ..< 11]. (int a * (int a ^ 9 mod 11)) mod 11 = 1"
  by code_simp

lemma sample_field_inv_ok: "field_inv_ok sampleEnv"
proof -
  have "(a * ((a mod 11) ^ 9 mod 11)) mod 11 = 1" if "a mod 11 \<noteq> 0" for a :: int
  proof -
    define m where "m = nat (a mod 11)"
    have "0 \<le> a mod 11" "a mod 11 < 11"
      by simp_all
    with that have m: "int m = a mod 11" "m \<in> set [1 ..< 11]"
      by (simp_all add: m_def) linarith
    have "(a * ((a mod 11) ^ 9 mod 11)) mod 11 = ((a mod 11) * ((a mod 11) ^ 9 mod 11)) mod 11"
      by (simp add: mod_mult_left_eq)
    also have "\<dots> = 1"
      using sample_inv_all m by (metis)
    finally show ?thesis .
  qed
  then show ?thesis
    by (simp add: field_inv_ok_def sampleEnv_def sampleInv_def)
qed

lemma hexChar_not_bar_all: "\<forall>d \<in> set [0 ..< 16]. hexChar d \<noteq> CHR ''|'' \<and> toLowerChar (hexChar d) = hexChar d"
  by code_simp

lemma byteToHex_chars:
  "c \<in> set (byteToHex b) \<Longrightarrow> c \<noteq> CHR ''|'' \<and> toLowerChar c = c"
proof -
  have "unat b div 16 < 16"
    using unsigned_less [of b, where 'a = nat] by (simp add: div_less_iff_less_mult del: unsigned_less)
  moreover have "unat b mod 16 < 16" by simp
  ultimately show "c \<in> set (byteToHex b) \<Longrightarrow> c \<noteq> CHR ''|'' \<and> toLowerChar c = c"
    using hexChar_not_bar_all by (auto simp: byteToHex_def)
qed

lemma bytesToHex_chars: "c \<in> set (bytesToHex bs) \<Longrightarrow> c \<noteq> CHR ''|'' \<and> toLowerChar c = c"
  using byteToHex_chars by (auto simp: bytesToHex_def)

lemma toLowerCase_bytesToHex: "toLowerCase (bytesToHex bs) = bytesToHex bs"
  unfolding toLowerCase_def using bytesToHex_chars by (simp add: map_idI)

lemma sample_asn1_der_ok: "asn1_der_ok sampleEnv"
proof -
  have "sampleDecodeDer (sampleEncodeDer r s) = Inr (r, s)"
    if "0 \<le> r" "r < 2 ^ 256" "0 \<le> s" "s < 2 ^ 256" for r s :: int
  proof -
    have r: "nat r < 256 ^ 32" and s: "nat s < 256 ^ 32"
      using that by (simp_all add: nat_less_iff)
    show ?thesis
      using that
      by (simp add: sampleDecodeDer_def sampleEncodeDer_def bytesToHex_length
          numberToBytesBE_length hexToNumber_numberToBytesBE [OF r] hexToNumber_numberToBytesBE [OF s])
  qed
  then show ?thesis
    by (simp add: asn1_der_ok_def sampleEnv_def)
qed

lemma sample_asn1_enc_ok: "asn1_enc_ok sampleEnv"
proof -
  have "sampleDecodeEnc (sampleEncodeEnc x y (bytesToHex h) (bytesToHex c))
      = Inr \<lparr> enc_x = x, enc_y = y, enc_cipher = bytesToHex c, enc_hash = bytesToHex h \<rparr>"
    if "x < 2 ^ 256" "y < 2 ^ 256" for x y h c
  proof -
    have x: "x < 256 ^ 32" and y: "y < 256 ^ 32"
      using that by simp_all
    have nb: "\<forall>ch \<in> set (bytesToHex h). ch \<noteq> CHR ''|''"
      using bytesToHex_chars by blast
    have tw: "takeWhile (\<lambda>c. c \<noteq> CHR ''|'') (bytesToHex h @ CHR ''|'' # bytesToHex c) = bytesToHex h"
      using nb by (simp add: takeWhile_append2)
    have dw: "dropWhile (\<lambda>c. c \<noteq> CHR ''|'') (bytesToHex h @ CHR ''|'' # bytesToHex c) = CHR ''|'' # bytesToHex c"
      using nb by (simp add: dropWhile_append2)
    show ?thesis
      by (simp add: sampleDecodeEnc_def sampleEncodeEnc_def bytesToHex_length
          numberToBytesBE_length hexToNumber_numberToBytesBE [OF x] hexToNumber_numberToBytesBE [OF y]
          tw dw)
  qed
  then show ?thesis
    by (simp add: asn1_enc_ok_def sampleEnv_def)
qed

lemma bytesToHex_Cons4: "bytesToHex (4 # bs) = ''04'' @ bytesToHex bs"
  by (simp add: bytesToHex_def byteToHex_def hexChar_def)

lemma sampleFromHex_raw:
  assumes x: "x < 256 ^ 32" and y: "y < 256 ^ 32"
  shows "sampleFromHex (bytesToHex (4 # numberToBytesBE 32 x @ numberToBytesBE 32 y))
       = sampleFromAffine x y"
  by (simp add: sampleFromHex_def bytesToHex_Cons4
        bytesToHex_append bytesToHex_length numberToBytesBE_length
        hexToNumber_numberToBytesBE [OF x] hexToNumber_numberToBytesBE [OF y])

lemma sample_cyclic_curve: "cyclic_curve sampleEnv sampleEmb"
proof -
  have fa: "sampleFromAffine (nat (a mod 11)) ((nat (a mod 11) * nat (a mod 11) + 1) mod 11) = Inr (a mod 11)" for a
    by (simp add: sampleFromAffine_def nat_less_iff)
  have fh: "sampleFromHex (toHex sampleEnv (a mod 11)) = Inr (a mod 11)" for a
  proof -
    have "nat (a mod 11) < 256 ^ 32"
      by (simp add: nat_less_iff)
    moreover have "(nat (a mod 11) * nat (a mod 11) + 1) mod 11 < (256::nat) ^ 32"
      by (rule less_trans [of _ 11]) simp_all
    ultimately have "sampleFromHex (bytesToHex (4 # numberToBytesBE 32 (nat (a mod 11))
         @ numberToBytesBE 32 ((nat (a mod 11) * nat (a mod 11) + 1) mod 11)))
       = sampleFromAffine (nat (a mod 11)) ((nat (a mod 11) * nat (a mod 11) + 1) mod 11)"
      by (rule sampleFromHex_raw)
    then show ?thesis
      using fa [of a] by (simp add: toHex_def toRawBytes_def sampleEnv_def)
  qed
  have bx: "nat (a mod 11) < 2 ^ 256" for a :: int
    by (simp add: nat_less_iff)
  have by': "(nat (a mod 11) * nat (a mod 11) + 1) mod 11 < (2::nat) ^ 256" for a :: int
    by (rule less_trans [of _ 11]) simp_all
  show ?thesis
    unfolding cyclic_curve_def sampleEmb_def
  proof (intro conjI allI impI)
    fix a :: int
    show "fromHex sampleEnv (toHex sampleEnv (a mod 11)) = Inr (a mod 11)"
      using fh [of a] by (simp add: sampleEnv_def)
    show "fromAffine sampleEnv (pointX sampleEnv (a mod 11)) (pointY sampleEnv (a mod 11)) = Inr (a mod 11)"
      using fa [of a] by (simp add: sampleEnv_def)
    show "pointX sampleEnv (a mod 11) < 2 ^ 256"
      using bx [of a] by (simp add: sampleEnv_def)
    show "pointY sampleEnv (a mod 11) < 2 ^ 256"
      using by' [of a] by (simp add: sampleEnv_def)
  qed (simp_all add: sampleEnv_def mod_mult_left_eq mod_add_eq)
qed

section \<open>Encryption and decryption\<close>

lemma arrayToUtf8_utf8ToBytes: "arrayToUtf8 (utf8ToBytes str) = str"
proof -
  have "char_of (unat (of_nat (of_char c) :: byte)) = c" for c :: char
  proof -
    have "(of_char c :: nat) < 256" by simp
    then have "unat (of_nat (of_char c) :: byte) = of_char c"
      by (simp add: unat_of_nat)
    then show ?thesis by simp
  qed
  then show ?thesis
    by (simp add: arrayToUtf8_def utf8ToBytes_def map_idI)
qed

lemma msg_to_array:
  "(case m of MsgString str \<Rightarrow> hexToArray (utf8ToHex str) | MsgBytes b \<Rightarrow> Inr b) = Inr (msgBytes m)"
  by (cases m) (simp_all add: msgBytes_def utf8ToHex_def hexToArray_bytesToHex)

lemma plain_of_msg:
  "(case out of OutputArray \<Rightarrow> PlainArray (msgBytes m)
              | OutputString \<Rightarrow> PlainString (arrayToUtf8 (msgBytes m)))
   = (case out of OutputArray \<Rightarrow> PlainArray (msgBytes m) | OutputString \<Rightarrow> PlainString (msgString m))"
  by (cases m; cases out) (simp_all add: msgBytes_def msgString_def arrayToUtf8_utf8ToBytes)

lemma parseCipher_hex:
  assumes "length c1 = 128" "length c3 = 64" "fromHex E (''04'' @ c1) = Inr K"
  shows "parseCipher E (if cipherMode = C1C2C3 then c1 @ c2 @ c3 else c1 @ c3 @ c2) cipherMode False
       = Inr (K, c2, c3)"
  using assms by (simp add: parseCipher_def substring2_def substring1_def)

lemma parseCipher_asn1:
  assumes "asn1_enc_ok E" "x < 2 ^ 256" "y < 2 ^ 256" "fromAffine E x y = Inr K"
  shows "parseCipher E (if cipherMode = C1C2C3 then encodeEnc E x y (bytesToHex c2) (bytesToHex c3)
                        else encodeEnc E x y (bytesToHex c3) (bytesToHex c2)) cipherMode True
       = Inr (K, bytesToHex c2, bytesToHex c3)"
  using assms by (simp add: parseCipher_def asn1_enc_ok_def)

lemma toHex_split:
  "toHex E P = ''04'' @ bytesToHex (numberToBytesBE 32 (pointX E P) @ numberToBytesBE 32 (pointY E P))"
  by (simp add: toHex_def toRawBytes_def bytesToHex_Cons4)

lemma toHex_length: "length (toHex E P) = 130"
  by (simp add: toHex_split bytesToHex_length numberToBytesBE_length)

lemma decrypt_core:
  assumes dk: "hexToNumber privKey = Inr d"
    and pc: "parseCipher E cph cipherMode asn1
        = Inr (K, bytesToHex (xorCipherStream (sm3 E) x2 y2 mb), bytesToHex (sm3 E (x2 @ mb @ y2)))"
    and mul: "multiply E K (int d) = Inr Q"
    and cx: "coordBytes (pointX E Q) = Inr x2" and cy: "coordBytes (pointY E Q) = Inr y2"
  shows "doDecrypt E cph privKey cipherMode out asn1
       = Inr (case out of OutputArray \<Rightarrow> PlainArray mb | OutputString \<Rightarrow> PlainString (arrayToUtf8 mb))"
  by (simp add: doDecrypt_def dk pc mul cx cy hexToArray_bytesToHex xorCipherStream_involution
      arrayToHex_def toLowerCase_bytesToHex Let_def split: outputKind.splits)


lemma cyclic_curve_multiply:
  "cyclic_curve E emb \<Longrightarrow> 1 \<le> j \<Longrightarrow> j < CURVE_n E \<Longrightarrow> multiply E (emb a) j = Inr (emb (a * j))"
  unfolding cyclic_curve_def by blast

lemma cyclic_curve_coord:
  assumes "cyclic_curve E emb"
  shows "pointX E (emb a) < 2 ^ 256" "pointY E (emb a) < 2 ^ 256"
  using assms unfolding cyclic_curve_def by blast+

lemma cyclic_curve_nonzero:
  assumes "cyclic_curve E emb" "1 \<le> j" "j < CURVE_n E"
  shows "j mod CURVE_n E \<noteq> 0"
  using assms unfolding cyclic_curve_def by simp

lemma cyclic_curve_fromHex:
  "cyclic_curve E emb \<Longrightarrow> a mod CURVE_n E \<noteq> 0 \<Longrightarrow> fromHex E (toHex E (emb a)) = Inr (emb a)"
  unfolding cyclic_curve_def by blast

lemma cyclic_curve_fromAffine:
  "cyclic_curve E emb \<Longrightarrow> a mod CURVE_n E \<noteq> 0 \<Longrightarrow>
     fromAffine E (pointX E (emb a)) (pointY E (emb a)) = Inr (emb a)"
  unfolding cyclic_curve_def by blast

lemma encrypt_value:
  assumes pk: "(case pubKey of KeyHex h \<Rightarrow> fromHex E h | KeyPoint P \<Rightarrow> Inr P) = Inr P0"
    and kp: "hexToNumber (privateKey keypair) = Inr j"
    and mul: "multiply E P0 (int j) = Inr Q"
    and cx: "coordBytes (pointX E Q) = Inr x2" and cy: "coordBytes (pointY E Q) = Inr y2"
    and pub: "publicKey keypair = toHex E K" "fromHex E (toHex E K) = Inr K"
  shows "doEncrypt E keypair m pubKey cipherMode asn1 =
     Inr (let c3 = bytesToHex (sm3 E (x2 @ msgBytes m @ y2));
              c2 = bytesToHex (xorCipherStream (sm3 E) x2 y2 (msgBytes m));
              c1 = bytesToHex (numberToBytesBE 32 (pointX E K) @ numberToBytesBE 32 (pointY E K))
          in if asn1
             then (if cipherMode = C1C2C3 then encodeEnc E (pointX E K) (pointY E K) c2 c3
                   else encodeEnc E (pointX E K) (pointY E K) c3 c2)
             else (if cipherMode = C1C2C3 then c1 @ c2 @ c3 else c1 @ c3 @ c2))"
proof -
  have c1: "drop 2 (toHex E K)
      = bytesToHex (numberToBytesBE 32 (pointX E K) @ numberToBytesBE 32 (pointY E K))"
    by (simp add: toHex_split)
  show ?thesis
    by (simp add: doEncrypt_def msg_to_array pk kp mul cx cy pub toHex_length substring1_def c1 Let_def)
qed


text \<open>
  C1. For a key pair \<open>(d, P)\<close> with \<open>P = d \<cdot> G\<close>, \<open>d\<close> in \<open>[1, n - 1]\<close>, any message (string
  or bytes), any ephemeral key pair \<open>(j, j \<cdot> G)\<close> with \<open>j\<close> in \<open>[1, n - 1]\<close>, either framing
  mode and with or without ASN.1 encoding: \<open>doEncrypt\<close> returns a ciphertext, and
  \<open>doDecrypt\<close> of it with \<open>d\<close> in the same mode returns the message.
\<close>

theorem encrypt_decrypt_roundtrip:
  assumes crv: "cyclic_curve E emb" and h32: "hash32 E" and enc: "asn1_enc_ok E"
    and d: "hexToNumber privKey = Inr d" "1 \<le> d" "int d < CURVE_n E"
    and pk: "(case pubKey of KeyHex h \<Rightarrow> fromHex E h | KeyPoint P \<Rightarrow> Inr P) = Inr (emb (int d))"
    and kp: "hexToNumber (privateKey keypair) = Inr j" "1 \<le> j" "int j < CURVE_n E"
      "publicKey keypair = toHex E (emb (int j))"
  shows "\<exists>cph. doEncrypt E keypair m pubKey cipherMode asn1 = Inr cph \<and>
           doDecrypt E cph privKey cipherMode out asn1
             = Inr (case out of OutputArray \<Rightarrow> PlainArray (msgBytes m)
                    | OutputString \<Rightarrow> PlainString (msgString m))"
proof -
  define K where "K = emb (int j)"
  define Q where "Q = emb (int d * int j)"
  define x2 where "x2 = numberToBytesBE 32 (pointX E Q)"
  define y2 where "y2 = numberToBytesBE 32 (pointY E Q)"
  define mb where "mb = msgBytes m"
  define c2 where "c2 = xorCipherStream (sm3 E) x2 y2 mb"
  define c3 where "c3 = sm3 E (x2 @ mb @ y2)"
  define c1 where "c1 = numberToBytesBE 32 (pointX E K) @ numberToBytesBE 32 (pointY E K)"
  define cph where "cph = (if asn1
             then (if cipherMode = C1C2C3 then encodeEnc E (pointX E K) (pointY E K) (bytesToHex c2) (bytesToHex c3)
                   else encodeEnc E (pointX E K) (pointY E K) (bytesToHex c3) (bytesToHex c2))
             else (if cipherMode = C1C2C3 then bytesToHex c1 @ bytesToHex c2 @ bytesToHex c3
                   else bytesToHex c1 @ bytesToHex c3 @ bytesToHex c2))"
  have jn: "int j mod CURVE_n E \<noteq> 0"
    using cyclic_curve_nonzero [OF crv, of "int j"] kp by simp
  have mul1: "multiply E (emb (int d)) (int j) = Inr Q"
    unfolding Q_def using cyclic_curve_multiply [OF crv, of "int j" "int d"] kp by simp
  have mul2: "multiply E K (int d) = Inr Q"
    unfolding Q_def K_def using cyclic_curve_multiply [OF crv, of "int d" "int j"] d
    by (simp add: mult.commute)
  have cx: "coordBytes (pointX E Q) = Inr x2" and cy: "coordBytes (pointY E Q) = Inr y2"
    unfolding x2_def y2_def Q_def
    using cyclic_curve_coord [OF crv] by (simp_all add: coordBytes_eq)
  have fh: "fromHex E (toHex E K) = Inr K"
    unfolding K_def by (rule cyclic_curve_fromHex [OF crv jn])
  have fa: "fromAffine E (pointX E K) (pointY E K) = Inr K"
    unfolding K_def by (rule cyclic_curve_fromAffine [OF crv jn])
  have e: "doEncrypt E keypair m pubKey cipherMode asn1 = Inr cph"
    using encrypt_value [OF pk kp(1) mul1 cx cy _ fh, of m cipherMode asn1] kp(4)
    by (simp add: K_def cph_def c1_def c2_def c3_def mb_def Let_def)
  have l1: "length (bytesToHex c1) = 128"
    by (simp add: c1_def bytesToHex_length numberToBytesBE_length)
  have l3: "length (bytesToHex c3) = 64"
    using h32 by (simp add: c3_def bytesToHex_length hash32_def)
  have f04: "fromHex E (''04'' @ bytesToHex c1) = Inr K"
    using fh by (simp add: toHex_split c1_def)
  have pc: "parseCipher E cph cipherMode asn1 = Inr (K, bytesToHex c2, bytesToHex c3)"
  proof (cases asn1)
    case True
    then show ?thesis
      unfolding cph_def
      using parseCipher_asn1 [OF enc _ _ fa, where ?c2.0 = c2 and ?c3.0 = c3 and cipherMode = cipherMode] cyclic_curve_coord [OF crv, of "int j"]
      by (simp add: K_def)
  next
    case False
    then show ?thesis
      unfolding cph_def
      using parseCipher_hex [OF l1 l3 f04, where ?c2.0 = "bytesToHex c2" and cipherMode = cipherMode]
      by simp
  qed
  have "doDecrypt E cph privKey cipherMode out asn1
       = Inr (case out of OutputArray \<Rightarrow> PlainArray mb | OutputString \<Rightarrow> PlainString (arrayToUtf8 mb))"
    by (rule decrypt_core [OF d(1) _ mul2 cx cy]) (simp add: pc c2_def c3_def)
  then have "doDecrypt E cph privKey cipherMode out asn1
       = Inr (case out of OutputArray \<Rightarrow> PlainArray (msgBytes m)
                    | OutputString \<Rightarrow> PlainString (msgString m))"
    unfolding mb_def plain_of_msg .
  with e show ?thesis by blast
qed


theorem encrypt_decrypt_roundtrip_witness:
  "cyclic_curve sampleEnv sampleEmb \<and> hash32 sampleEnv \<and> asn1_enc_ok sampleEnv
   \<and> hexToNumber ''0000000000000000000000000000000000000000000000000000000000000003'' = Inr 3
   \<and> hexToNumber ''0000000000000000000000000000000000000000000000000000000000000005'' = Inr 5
   \<and> (\<exists>cph.
        doEncrypt sampleEnv
          \<lparr> privateKey = ''0000000000000000000000000000000000000000000000000000000000000005'',
            publicKey = toHex sampleEnv 5 \<rparr>
          (MsgString ''hi'') (KeyPoint 3) 1 False = Inr cph
        \<and> doDecrypt sampleEnv cph
            ''0000000000000000000000000000000000000000000000000000000000000003'' 1 OutputString False
          = Inr (PlainString ''hi''))"
proof -
  have d: "hexToNumber ''0000000000000000000000000000000000000000000000000000000000000003'' = Inr 3"
    by (simp add: hexToNumber_def hexVal_def)
  have j: "hexToNumber (privateKey
      \<lparr> privateKey = ''0000000000000000000000000000000000000000000000000000000000000005'',
        publicKey = toHex sampleEnv 5 \<rparr>) = Inr 5"
    by (simp add: hexToNumber_def hexVal_def)
  have n: "CURVE_n sampleEnv = 11"
    by (simp add: sampleEnv_def)
  show ?thesis
    using encrypt_decrypt_roundtrip [OF sample_cyclic_curve sample_hash32 sample_asn1_enc_ok d _ _ _ j,
        of "KeyPoint 3" "MsgString ''hi''" 1 False OutputString]
      sample_cyclic_curve sample_hash32 sample_asn1_enc_ok d j
    by (simp add: n sampleEmb_def msgString_def)
qed

text \<open>
  C8. Without ASN.1 encoding, the ciphertext of a message of \<open>L\<close> bytes is the
  concatenation of three fields, \<open>C1 C3 C2\<close> by default and \<open>C1 C2 C3\<close> in mode 0:
  \<open>C1\<close> is the 128 hex characters of \<open>x1 || y1\<close> (the ephemeral public key without its
  \<open>04\<close>), \<open>C3\<close> is the 64 hex characters of \<open>SM3(x2 || M || y2)\<close> and \<open>C2\<close> the \<open>2 L\<close>
  hex characters of the message XORed with the key stream, \<open>(x2, y2)\<close> being the
  coordinates of \<open>k \<cdot> P\<close>; in all \<open>192 + 2 L\<close> characters.
\<close>

theorem ciphertext_framing:
  assumes crv: "cyclic_curve E emb" and h32: "hash32 E"
    and pk: "(case pubKey of KeyHex h \<Rightarrow> fromHex E h | KeyPoint P \<Rightarrow> Inr P) = Inr (emb a)"
    and kp: "hexToNumber (privateKey keypair) = Inr j" "1 \<le> j" "int j < CURVE_n E"
      "publicKey keypair = toHex E (emb (int j))"
  shows "\<exists>c1 c2 c3 x2 y2.
      doEncrypt E keypair m pubKey cipherMode False
        = Inr (if cipherMode = C1C2C3 then c1 @ c2 @ c3 else c1 @ c3 @ c2)
      \<and> x2 = numberToBytesBE 32 (pointX E (emb (a * int j)))
      \<and> y2 = numberToBytesBE 32 (pointY E (emb (a * int j)))
      \<and> c1 = bytesToHex (numberToBytesBE 32 (pointX E (emb (int j))))
             @ bytesToHex (numberToBytesBE 32 (pointY E (emb (int j))))
      \<and> c3 = bytesToHex (sm3 E (x2 @ msgBytes m @ y2))
      \<and> c2 = bytesToHex (xorCipherStream (sm3 E) x2 y2 (msgBytes m))
      \<and> length c1 = 128 \<and> length c3 = 64 \<and> length c2 = 2 * length (msgBytes m)
      \<and> length (if cipherMode = C1C2C3 then c1 @ c2 @ c3 else c1 @ c3 @ c2)
          = 192 + 2 * length (msgBytes m)"
proof -
  define K where "K = emb (int j)"
  define Q where "Q = emb (a * int j)"
  define x2 where "x2 = numberToBytesBE 32 (pointX E Q)"
  define y2 where "y2 = numberToBytesBE 32 (pointY E Q)"
  define c2 where "c2 = bytesToHex (xorCipherStream (sm3 E) x2 y2 (msgBytes m))"
  define c3 where "c3 = bytesToHex (sm3 E (x2 @ msgBytes m @ y2))"
  define c1 where "c1 = bytesToHex (numberToBytesBE 32 (pointX E K))
      @ bytesToHex (numberToBytesBE 32 (pointY E K))"
  have jn: "int j mod CURVE_n E \<noteq> 0"
    using cyclic_curve_nonzero [OF crv, of "int j"] kp by simp
  have mul1: "multiply E (emb a) (int j) = Inr Q"
    unfolding Q_def using cyclic_curve_multiply [OF crv, of "int j" a] kp by simp
  have cx: "coordBytes (pointX E Q) = Inr x2" and cy: "coordBytes (pointY E Q) = Inr y2"
    unfolding x2_def y2_def Q_def
    using cyclic_curve_coord [OF crv] by (simp_all add: coordBytes_eq)
  have fh: "fromHex E (toHex E K) = Inr K"
    unfolding K_def by (rule cyclic_curve_fromHex [OF crv jn])
  have e: "doEncrypt E keypair m pubKey cipherMode False
        = Inr (if cipherMode = C1C2C3 then c1 @ c2 @ c3 else c1 @ c3 @ c2)"
    using encrypt_value [OF pk kp(1) mul1 cx cy _ fh, of m cipherMode False] kp(4)
    by (simp add: K_def c1_def c2_def c3_def Let_def bytesToHex_append)
  have l1: "length c1 = 128"
    by (simp add: c1_def bytesToHex_length numberToBytesBE_length)
  have l3: "length c3 = 64"
    using h32 by (simp add: c3_def bytesToHex_length hash32_def)
  have l2: "length c2 = 2 * length (msgBytes m)"
    by (simp add: c2_def bytesToHex_length xorCipherStream_length)
  have tot: "length (if cipherMode = C1C2C3 then c1 @ c2 @ c3 else c1 @ c3 @ c2)
          = 192 + 2 * length (msgBytes m)"
    by (simp add: l1 l2 l3)
  have x2': "x2 = numberToBytesBE 32 (pointX E (emb (a * int j)))"
    and y2': "y2 = numberToBytesBE 32 (pointY E (emb (a * int j)))"
    by (simp_all add: x2_def y2_def Q_def)
  have c1': "c1 = bytesToHex (numberToBytesBE 32 (pointX E (emb (int j))))
             @ bytesToHex (numberToBytesBE 32 (pointY E (emb (int j))))"
    by (simp add: c1_def K_def)
  from e x2' y2' c1' c3_def c2_def l1 l3 l2 tot show ?thesis
    by blast
qed

lemma numberToBytesBE_zero: "numberToBytesBE len 0 = replicate len 0"
  by (induction len) (simp_all add: replicate_append_same)

lemma numberToBytesBE_small:
  "x < 256 \<Longrightarrow> numberToBytesBE (Suc len) x = replicate len 0 @ [of_nat x]"
  by (simp add: numberToBytesBE_zero)

lemma numberToBytesBE_32_small:
  "x < 256 \<Longrightarrow> numberToBytesBE 32 x = replicate 31 0 @ [of_nat x]"
  using numberToBytesBE_small [of x 31] by simp

theorem ciphertext_framing_witness:
  "cyclic_curve sampleEnv sampleEmb \<and> hash32 sampleEnv
   \<and> hexToNumber ''0000000000000000000000000000000000000000000000000000000000000005'' = Inr 5 \<and> int 5 < CURVE_n sampleEnv
   \<and> doEncrypt sampleEnv \<lparr> privateKey = ''0000000000000000000000000000000000000000000000000000000000000005'', publicKey = toHex sampleEnv 5 \<rparr>
        (MsgString ''hello'') (KeyPoint 3) 1 False = Inr ''000000000000000000000000000000000000000000000000000000000000000500000000000000000000000000000000000000000000000000000000000000041e0600000000000000000000000000000000000000000000000000000000000063646c6c6f''
   \<and> doEncrypt sampleEnv \<lparr> privateKey = ''0000000000000000000000000000000000000000000000000000000000000005'', publicKey = toHex sampleEnv 5 \<rparr>
        (MsgString ''hello'') (KeyPoint 3) 0 False = Inr ''0000000000000000000000000000000000000000000000000000000000000005000000000000000000000000000000000000000000000000000000000000000463646c6c6f1e06000000000000000000000000000000000000000000000000000000000000''
   \<and> length ''000000000000000000000000000000000000000000000000000000000000000500000000000000000000000000000000000000000000000000000000000000041e0600000000000000000000000000000000000000000000000000000000000063646c6c6f'' = 202"
proof -
  define kp where "kp = \<lparr> privateKey = ''0000000000000000000000000000000000000000000000000000000000000005'', publicKey = toHex sampleEnv 5 \<rparr>"
  have j: "hexToNumber (privateKey kp) = Inr 5"
    by (simp add: kp_def hexToNumber_def hexVal_def)
  have j': "hexToNumber ''0000000000000000000000000000000000000000000000000000000000000005'' = Inr 5"
    by (simp add: hexToNumber_def hexVal_def)
  have n: "CURVE_n sampleEnv = 11"
    by (simp add: sampleEnv_def)
  have pk: "(case KeyPoint 3 of KeyHex h \<Rightarrow> fromHex sampleEnv h | KeyPoint P \<Rightarrow> Inr P) = Inr (sampleEmb 3)"
    by (simp add: sampleEmb_def)
  have j1: "1 \<le> (5::nat)" and j2: "int 5 < CURVE_n sampleEnv"
    by (simp_all add: n)
  have pub: "publicKey kp = toHex sampleEnv (sampleEmb (int 5))"
    by (simp add: kp_def sampleEmb_def)
  have co: "pointX sampleEnv (sampleEmb (3 * int 5)) = 4" "pointY sampleEnv (sampleEmb (3 * int 5)) = 6"
    "pointX sampleEnv (sampleEmb (int 5)) = 5" "pointY sampleEnv (sampleEmb (int 5)) = 4"
    by (simp_all add: sampleEnv_def sampleEmb_def)
  have mb: "msgBytes (MsgString ''hello'') = [0x68, 0x65, 0x6c, 0x6c, 0x6f]"
    by (simp add: msgBytes_def utf8ToBytes_def)
  have z30: "concat (replicate 30 ''00'') = ''000000000000000000000000000000000000000000000000000000000000''"
    by code_simp
  have z31: "concat (replicate 31 ''00'') = ''00000000000000000000000000000000000000000000000000000000000000''"
    by code_simp
  have xs: "bytesToHex (xorCipherStream (sm3 sampleEnv) (replicate 31 0 @ [4]) (replicate 31 0 @ [6])
        [0x68, 0x65, 0x6c, 0x6c, 0x6f]) = ''63646c6c6f''"
    by (simp add: xorCipherStream_def nextT_def ctShift_def sampleEnv_def sampleHash_def Let_def
        sum_list_replicate bytesToHex_def byteToHex_def hexChar_def)
  have hs: "bytesToHex (sm3 sampleEnv ((replicate 31 0 @ [4]) @ [0x68, 0x65, 0x6c, 0x6c, 0x6f]
        @ replicate 31 0 @ [6])) = ''1e06000000000000000000000000000000000000000000000000000000000000''"
    by (simp add: sampleEnv_def sampleHash_def bytesToHex_def byteToHex_def hexChar_def
        sum_list_replicate z30)
  have c1: "bytesToHex (replicate 31 0 @ [5]) @ bytesToHex (replicate 31 0 @ [4]) = ''00000000000000000000000000000000000000000000000000000000000000050000000000000000000000000000000000000000000000000000000000000004''"
    by (simp add: bytesToHex_def byteToHex_def hexChar_def z31)
  have enc: "doEncrypt sampleEnv kp (MsgString ''hello'') (KeyPoint 3) cipherMode False
        = Inr (if cipherMode = C1C2C3 then ''00000000000000000000000000000000000000000000000000000000000000050000000000000000000000000000000000000000000000000000000000000004'' @ ''63646c6c6f'' @ ''1e06000000000000000000000000000000000000000000000000000000000000'' else ''00000000000000000000000000000000000000000000000000000000000000050000000000000000000000000000000000000000000000000000000000000004'' @ ''1e06000000000000000000000000000000000000000000000000000000000000'' @ ''63646c6c6f'')"
    for cipherMode
  proof -
    from ciphertext_framing [OF sample_cyclic_curve sample_hash32 pk j j1 j2 pub,
        of "MsgString ''hello''" cipherMode]
    obtain c1' c2' c3' x2 y2 where
      e: "doEncrypt sampleEnv kp (MsgString ''hello'') (KeyPoint 3) cipherMode False
          = Inr (if cipherMode = C1C2C3 then c1' @ c2' @ c3' else c1' @ c3' @ c2')"
      and x2: "x2 = numberToBytesBE 32 (pointX sampleEnv (sampleEmb (3 * int 5)))"
      and y2: "y2 = numberToBytesBE 32 (pointY sampleEnv (sampleEmb (3 * int 5)))"
      and c1': "c1' = bytesToHex (numberToBytesBE 32 (pointX sampleEnv (sampleEmb (int 5))))
             @ bytesToHex (numberToBytesBE 32 (pointY sampleEnv (sampleEmb (int 5))))"
      and c3': "c3' = bytesToHex (sm3 sampleEnv (x2 @ msgBytes (MsgString ''hello'') @ y2))"
      and c2': "c2' = bytesToHex (xorCipherStream (sm3 sampleEnv) x2 y2 (msgBytes (MsgString ''hello'')))"
      by blast
    have x2v: "x2 = replicate 31 0 @ [4]" and y2v: "y2 = replicate 31 0 @ [6]"
      unfolding x2 y2 co by (simp_all add: numberToBytesBE_32_small)
    have "c1' = ''00000000000000000000000000000000000000000000000000000000000000050000000000000000000000000000000000000000000000000000000000000004''"
      unfolding c1' co using c1 by (simp add: numberToBytesBE_32_small)
    moreover have "c3' = ''1e06000000000000000000000000000000000000000000000000000000000000''"
      unfolding c3' x2v y2v mb by (rule hs)
    moreover have "c2' = ''63646c6c6f''"
      unfolding c2' x2v y2v mb by (rule xs)
    ultimately show ?thesis
      using e by simp
  qed
  have e1: "doEncrypt sampleEnv kp (MsgString ''hello'') (KeyPoint 3) 1 False = Inr ''000000000000000000000000000000000000000000000000000000000000000500000000000000000000000000000000000000000000000000000000000000041e0600000000000000000000000000000000000000000000000000000000000063646c6c6f''"
    using enc [of 1] by (simp add: C1C2C3_def)
  have e0: "doEncrypt sampleEnv kp (MsgString ''hello'') (KeyPoint 3) 0 False = Inr ''0000000000000000000000000000000000000000000000000000000000000005000000000000000000000000000000000000000000000000000000000000000463646c6c6f1e06000000000000000000000000000000000000000000000000000000000000''"
    using enc [of 0] by (simp add: C1C2C3_def)
  have len: "length ''000000000000000000000000000000000000000000000000000000000000000500000000000000000000000000000000000000000000000000000000000000041e0600000000000000000000000000000000000000000000000000000000000063646c6c6f'' = 202"
    by simp
  from sample_cyclic_curve sample_hash32 j' j2 e1 e0 len show ?thesis
    unfolding kp_def by blast
qed

text \<open>
  C6. Once \<open>doDecrypt\<close> has parsed the ciphertext into \<open>c1\<close>, \<open>c2\<close>, \<open>c3\<close> and computed
  \<open>(x2, y2)\<close>, it recomputes \<open>C3' = SM3(x2 || M || y2)\<close> over the recovered bytes \<open>M\<close> and
  compares it with \<open>c3\<close> in lower case: on a match it returns \<open>M\<close> (bytes, or the string
  decoded from them), otherwise the empty array or the empty string, as a value.
\<close>

theorem decrypt_integrity_check:
  assumes "hexToNumber privKey = Inr d"
    and "parseCipher E cph cipherMode asn1 = Inr (c1, c2, c3)"
    and "hexToArray c2 = Inr cb"
    and "multiply E c1 (int d) = Inr Q"
    and "coordBytes (pointX E Q) = Inr x2" and "coordBytes (pointY E Q) = Inr y2"
  shows "doDecrypt E cph privKey cipherMode out asn1 =
     (let M = xorCipherStream (sm3 E) x2 y2 cb
      in if toLowerCase (bytesToHex (sm3 E (x2 @ M @ y2))) = toLowerCase c3
         then Inr (case out of OutputArray \<Rightarrow> PlainArray M | OutputString \<Rightarrow> PlainString (arrayToUtf8 M))
         else Inr (case out of OutputArray \<Rightarrow> PlainArray [] | OutputString \<Rightarrow> PlainString ''''))"
  using assms
  by (simp add: doDecrypt_def Let_def arrayToHex_def toLowerCase_bytesToHex)


theorem decrypt_integrity_check_witness:
  "hexToNumber ''0000000000000000000000000000000000000000000000000000000000000003'' = Inr 3
   \<and> parseCipher sampleEnv ''00000000000000000000000000000000000000000000000000000000000000050000000000000000000000000000000000000000000000000000000000000004DB060000000000000000000000000000000000000000000000000000000000006368'' 1 False = Inr (5, ''6368'', ''DB06000000000000000000000000000000000000000000000000000000000000'')
   \<and> hexToArray ''6368'' = Inr [0x63, 0x68]
   \<and> multiply sampleEnv 5 (int 3) = Inr 4
   \<and> coordBytes (pointX sampleEnv 4) = Inr (replicate 31 0 @ [4])
   \<and> coordBytes (pointY sampleEnv 4) = Inr (replicate 31 0 @ [6])
   \<and> doDecrypt sampleEnv ''00000000000000000000000000000000000000000000000000000000000000050000000000000000000000000000000000000000000000000000000000000004DB060000000000000000000000000000000000000000000000000000000000006368'' ''0000000000000000000000000000000000000000000000000000000000000003'' 1 OutputString False = Inr (PlainString ''hi'')"
proof -
  have h1: "hexToNumber ''0000000000000000000000000000000000000000000000000000000000000003'' = Inr 3"
    by (simp add: hexToNumber_def hexVal_def)
  have h2: "parseCipher sampleEnv ''00000000000000000000000000000000000000000000000000000000000000050000000000000000000000000000000000000000000000000000000000000004DB060000000000000000000000000000000000000000000000000000000000006368'' 1 False = Inr (5, ''6368'', ''DB06000000000000000000000000000000000000000000000000000000000000'')"
    by (simp add: parseCipher_def C1C2C3_def substring2_def substring1_def sampleEnv_def
        sampleFromHex_def sampleFromAffine_def hexToNumber_def hexVal_def)
  have h3: "hexToArray ''6368'' = Inr [0x63, 0x68]"
    by (simp add: hexVal_def)
  have h4: "multiply sampleEnv 5 (int 3) = Inr 4"
    by (simp add: sampleEnv_def)
  have px: "pointX sampleEnv 4 = 4" and py: "pointY sampleEnv 4 = 6"
    by (simp_all add: sampleEnv_def)
  have "coordBytes 4 = Inr (numberToBytesBE 32 4)" "coordBytes 6 = Inr (numberToBytesBE 32 6)"
    by (simp_all add: coordBytes_eq)
  then have h5: "coordBytes (pointX sampleEnv 4) = Inr (replicate 31 0 @ [4])"
    and h6: "coordBytes (pointY sampleEnv 4) = Inr (replicate 31 0 @ [6])"
    by (simp_all add: px py numberToBytesBE_32_small)
  have xs: "xorCipherStream (sm3 sampleEnv) (replicate 31 0 @ [4]) (replicate 31 0 @ [6]) [0x63, 0x68]
      = [0x68, 0x69]"
    by (simp add: xorCipherStream_def nextT_def ctShift_def sampleEnv_def sampleHash_def Let_def
        sum_list_replicate)
  have lc: "toLowerCase ''DB06000000000000000000000000000000000000000000000000000000000000'' = ''db06000000000000000000000000000000000000000000000000000000000000''"
    by code_simp
  have zs: "concat (replicate 30 ''00'') = ''000000000000000000000000000000000000000000000000000000000000''"
    by code_simp
  have hs: "bytesToHex (sm3 sampleEnv ((replicate 31 0 @ [4]) @ [0x68, 0x69] @ replicate 31 0 @ [6]))
      = ''db06000000000000000000000000000000000000000000000000000000000000''"
    by (simp add: sampleEnv_def sampleHash_def bytesToHex_def byteToHex_def hexChar_def
        sum_list_replicate zs)
  have au: "arrayToUtf8 [0x68, 0x69] = ''hi''"
    by code_simp
  have "doDecrypt sampleEnv ''00000000000000000000000000000000000000000000000000000000000000050000000000000000000000000000000000000000000000000000000000000004DB060000000000000000000000000000000000000000000000000000000000006368'' ''0000000000000000000000000000000000000000000000000000000000000003'' 1 OutputString False = Inr (PlainString ''hi'')"
    unfolding decrypt_integrity_check [OF h1 h2 h3 h4 h5 h6, of OutputString]
      Let_def xs toLowerCase_bytesToHex hs lc au
    by simp
  with h1 h2 h3 h4 h5 h6 show ?thesis
    by blast
qed

section \<open>The identity hash\<close>

lemma hexToArray_bytesToHex_append:
  "hexToArray (bytesToHex bs @ s) = ebind (hexToArray s) (\<lambda>b. Inr (bs @ b))"
proof (induction bs)
  case Nil
  show ?case by (cases "hexToArray s") (simp_all add: bytesToHex_def)
next
  case (Cons b bs)
  have "bytesToHex (b # bs) @ s = byteToHex b @ (bytesToHex bs @ s)"
    by (simp add: bytesToHex_def)
  then show ?case
    by (cases "hexToArray s") (simp_all add: hexToArray_byteToHex Cons.IH)
qed

lemma hexToArray_length: "hexToArray s = Inr bs \<Longrightarrow> length s = 2 * length bs"
proof (induction s arbitrary: bs rule: hexToArray.induct)
  case 1
  then show ?case by simp
next
  case (2 c)
  then show ?case by simp
next
  case (3 c d cs)
  from "3.prems" obtain v w bs' where "hexVal c = Some v" "hexVal d = Some w"
      "hexToArray cs = Inr bs'" "bs = of_nat (16 * v + w) # bs'"
    by (auto simp: ebind_def split: option.splits sum.splits)
  with "3.IH" show ?case by simp
qed

lemma numberToBytesBE_2:
  "numberToBytesBE 2 x = [of_nat ((x div 256) mod 256), of_nat (x mod 256)]"
proof -
  have "numberToBytesBE 2 x = numberToBytesBE (Suc (Suc 0)) x"
    by (simp only: numeral_2_eq_2)
  then show ?thesis by simp
qed

lemma coordHex: "x < 2 ^ 256 \<Longrightarrow> leftPad (numberToHexUnpadded x) 64 = bytesToHex (numberToBytesBE 32 x)"
  using leftPad_numberToHexUnpadded [of x 32] by simp

lemma getZ_eq:
  assumes par: "CURVE_a E < 2 ^ 256" "CURVE_b E < 2 ^ 256"
      "pointX E (BASE E) < 2 ^ 256" "pointY E (BASE E) < 2 ^ 256"
    and pk: "(length pubKey = 128 \<and> hexToArray pubKey = Inr pkb) \<or>
             (length pubKey \<noteq> 128 \<and> (\<exists>P. fromHex E pubKey = Inr P \<and>
                pointX E P < 2 ^ 256 \<and> pointY E P < 2 ^ 256 \<and>
                pkb = numberToBytesBE 32 (pointX E P) @ numberToBytesBE 32 (pointY E P)))"
    and uid: "uid = (case userIdOpt of None \<Rightarrow> ''1234567812345678'' | Some u \<Rightarrow> u)"
  shows "getZ E pubKey userIdOpt =
      Inr (sm3 E (numberToBytesBE 2 (8 * length (utf8ToBytes uid)) @ utf8ToBytes uid
                  @ numberToBytesBE 32 (CURVE_a E) @ numberToBytesBE 32 (CURVE_b E)
                  @ numberToBytesBE 32 (pointX E (BASE E)) @ numberToBytesBE 32 (pointY E (BASE E))
                  @ pkb))
    \<and> length pkb = 64
    \<and> getHash E (Raw mb) pubKey userIdOpt =
        ebind (getZ E pubKey userIdOpt) (\<lambda>z. Inr (bytesToHex (sm3 E (z @ mb))))"
proof -
  define pre where "pre = utf8ToBytes uid
                  @ numberToBytesBE 32 (CURVE_a E) @ numberToBytesBE 32 (CURVE_b E)
                  @ numberToBytesBE 32 (pointX E (BASE E)) @ numberToBytesBE 32 (pointY E (BASE E))"
  have u: "(case userIdOpt of None \<Rightarrow> defaultUserId | Some u \<Rightarrow> u) = uid"
    by (simp add: uid defaultUserId_def split: option.splits)
  have entl: "length (utf8ToHex uid) * 4 = 8 * length (utf8ToBytes uid)"
    by (simp add: utf8ToHex_def bytesToHex_length)
  have prehex: "utf8ToHex uid @ leftPad (numberToHexUnpadded (CURVE_a E)) 64
      @ leftPad (numberToHexUnpadded (CURVE_b E)) 64
      @ leftPad (numberToHexUnpadded (pointX E (BASE E))) 64
      @ leftPad (numberToHexUnpadded (pointY E (BASE E))) 64 @ rest = bytesToHex pre @ rest" for rest
    using par by (simp add: coordHex pre_def bytesToHex_append utf8ToHex_def)
  have z: "getZ E pubKey userIdOpt = Inr (sm3 E (numberToBytesBE 2 (8 * length (utf8ToBytes uid)) @ pre @ pkb))"
    and l: "length pkb = 64"
  proof -
    from pk show "getZ E pubKey userIdOpt = Inr (sm3 E (numberToBytesBE 2 (8 * length (utf8ToBytes uid)) @ pre @ pkb))"
    proof
      assume a: "length pubKey = 128 \<and> hexToArray pubKey = Inr pkb"
      then have sp: "substring2 pubKey 0 64 @ substring2 pubKey 64 128 = pubKey"
        by (simp add: substring2_def)
      have A: "hexToArray (utf8ToHex uid @ leftPad (numberToHexUnpadded (CURVE_a E)) 64
          @ leftPad (numberToHexUnpadded (CURVE_b E)) 64
          @ leftPad (numberToHexUnpadded (pointX E (BASE E))) 64
          @ leftPad (numberToHexUnpadded (pointY E (BASE E))) 64 @ pubKey) = Inr (pre @ pkb)"
        unfolding prehex using a by (simp add: hexToArray_bytesToHex_append)
      show ?thesis
        using a unfolding getZ_def Let_def u
        by (simp add: sp A entl numberToBytesBE_2)
    next
      assume "length pubKey \<noteq> 128 \<and> (\<exists>P. fromHex E pubKey = Inr P \<and>
                pointX E P < 2 ^ 256 \<and> pointY E P < 2 ^ 256 \<and>
                pkb = numberToBytesBE 32 (pointX E P) @ numberToBytesBE 32 (pointY E P))"
      then obtain P where a: "length pubKey \<noteq> 128" "fromHex E pubKey = Inr P"
          "pointX E P < 2 ^ 256" "pointY E P < 2 ^ 256"
          "pkb = numberToBytesBE 32 (pointX E P) @ numberToBytesBE 32 (pointY E P)"
        by blast
      have "leftPad (numberToHexUnpadded (pointX E P)) 64 @ leftPad (numberToHexUnpadded (pointY E P)) 64
          = bytesToHex pkb"
        using a(3,4) by (simp add: a(5) bytesToHex_append coordHex)
      then have B: "hexToArray (utf8ToHex uid @ leftPad (numberToHexUnpadded (CURVE_a E)) 64
          @ leftPad (numberToHexUnpadded (CURVE_b E)) 64
          @ leftPad (numberToHexUnpadded (pointX E (BASE E))) 64
          @ leftPad (numberToHexUnpadded (pointY E (BASE E))) 64
          @ leftPad (numberToHexUnpadded (pointX E P)) 64 @ leftPad (numberToHexUnpadded (pointY E P)) 64)
          = Inr (pre @ pkb)"
        unfolding prehex by (simp add: hexToArray_bytesToHex bytesToHex_append [symmetric])
      show ?thesis
        using a(1,2) unfolding getZ_def Let_def u
        by (simp add: B entl numberToBytesBE_2)
    qed
    from pk show "length pkb = 64"
      using hexToArray_length [of pubKey pkb] by (auto simp: numberToBytesBE_length)
  qed
  show ?thesis
    using z l by (simp add: pre_def getHash_def)
qed




section \<open>The signing loop\<close>

lemma takePoint_source:
  assumes "takePoint E pointPool draws = Some (Inr pt, pool', draws')"
  shows "(pt \<in> set pointPool \<or> (\<exists>kp \<in> set draws. getPoint E kp = Inr pt))
       \<and> set pool' \<subseteq> set pointPool \<and> set draws' \<subseteq> set draws"
  using assms
  by (auto simp: takePoint_def split: if_splits list.splits dest: in_set_butlastD)

lemma signLoop_accepted:
  "signLoop E dA e pointPool draws = Some (Inr (kk, r, s)) \<Longrightarrow>
     \<exists>pt. (pt \<in> set pointPool \<or> (\<exists>kp \<in> set draws. getPoint E kp = Inr pt))
          \<and> k pt = kk \<and> accepted E dA e pt r s"
proof (induction E dA e pointPool draws rule: signLoop.induct)
  case (1 E dA e pointPool draws)
  from "1.prems" obtain res pool' draws' where tp: "takePoint E pointPool draws = Some (res, pool', draws')"
    by (subst (asm) signLoop.simps) (auto split: option.splits)
  from "1.prems" tp obtain pt where res: "res = Inr pt"
    by (subst (asm) signLoop.simps) (auto split: sum.splits)
  note src = takePoint_source [OF tp [unfolded res]]
  define r0 where "r0 = field_add E e (x1 pt)"
  show ?case
  proof (cases "r0 = 0 \<or> r0 + k pt = CURVE_n E")
    case True
    then have "signLoop E dA e pool' draws' = Some (Inr (kk, r, s))"
      using "1.prems" by (subst (asm) signLoop.simps) (simp add: tp res r0_def Let_def)
    from "1.IH"(1) [OF tp [unfolded res] refl refl refl r0_def True this] src
    show ?thesis by blast
  next
    case False
    from "1.prems" False obtain i where i: "field_inv E (field_addN dA 1) = Inr i"
      by (subst (asm) signLoop.simps) (auto simp: tp res r0_def Let_def split: sum.splits)
    define s0 where "s0 = field_mul E i (field_subN (k pt) (field_mulN r0 dA))"
    show ?thesis
    proof (cases "s0 = 0")
      case True
      then have "signLoop E dA e pool' draws' = Some (Inr (kk, r, s))"
        using "1.prems" False
        by (subst (asm) signLoop.simps) (simp add: tp res r0_def [symmetric] i s0_def [symmetric] Let_def)
      from "1.IH"(2) [OF tp [unfolded res] refl refl refl r0_def False i s0_def True this] src
      show ?thesis by blast
    next
      case s: False
      have "kk = k pt \<and> r = r0 \<and> s = s0"
        using "1.prems" False s
        by (subst (asm) signLoop.simps) (simp add: tp res r0_def [symmetric] i s0_def [symmetric] Let_def)
      then show ?thesis
        using False s src i
        by (auto simp: accepted_def r0_def s0_def field_add_def field_mul_def field_subN_def
            field_mulN_def field_addN_def)
    qed
  qed
qed


lemma signLoop_retry:
  assumes tp: "takePoint E pointPool draws = Some (Inr pt, pool', draws')"
    and r: "r = (e + x1 pt) mod CURVE_n E"
    and c: "r = 0 \<or> r + k pt = CURVE_n E \<or>
         (\<exists>i. field_inv E (dA + 1) = Inr i \<and> (i * (k pt - r * dA)) mod CURVE_n E = 0)"
  shows "signLoop E dA e pointPool draws = signLoop E dA e pool' draws'"
proof (cases "r = 0 \<or> r + k pt = CURVE_n E")
  case True
  then show ?thesis
    by (subst signLoop.simps) (simp add: tp r Let_def field_add_def)
next
  case False
  with c obtain i where i: "field_inv E (dA + 1) = Inr i" "(i * (k pt - r * dA)) mod CURVE_n E = 0"
    by auto
  from False i show ?thesis
    unfolding r
    by (subst signLoop.simps)
       (simp add: tp Let_def field_add_def field_mul_def field_subN_def field_mulN_def
          field_addN_def)
qed

text \<open>
  C4. A signature that \<open>doSignature\<close> returns is the encoding of an \<open>(r, s)\<close> computed
  from one draw \<open>(k, x1)\<close> of the pool or of the random source, with
  \<open>r = (e + x1) mod n\<close>, \<open>s = ((1 + d)\<^sup>-\<^sup>1 (k - r d)) mod n\<close>, \<open>r \<noteq> 0\<close>, \<open>s \<noteq> 0\<close> and
  \<open>r + k \<noteq> n\<close>; a draw that violates one of the three conditions is dropped and the
  loop goes on with the remaining pool and draws.
\<close>

theorem doSignature_invariant:
  "(doSignature E draws m privKey pointPool der hash pubKeyOpt userIdOpt = Some (Inr sig) \<longrightarrow>
      (\<exists>dA e pt r s.
          signInputs E m privKey hash pubKeyOpt userIdOpt = Inr (dA, e)
        \<and> (pt \<in> set pointPool \<or> (\<exists>kp \<in> set draws. getPoint E kp = Inr pt))
        \<and> accepted E dA e pt r s
        \<and> sig = (if der then encodeDer E r s else signatureHex r s)))
   \<and> (\<forall>dA e pt pool' draws' r.
        takePoint E pointPool draws = Some (Inr pt, pool', draws')
        \<and> r = (e + x1 pt) mod CURVE_n E
        \<and> (r = 0 \<or> r + k pt = CURVE_n E \<or>
            (\<exists>i. field_inv E (dA + 1) = Inr i \<and> (i * (k pt - r * dA)) mod CURVE_n E = 0))
        \<longrightarrow> signLoop E dA e pointPool draws = signLoop E dA e pool' draws')"
proof (intro conjI impI allI)
  assume a: "doSignature E draws m privKey pointPool der hash pubKeyOpt userIdOpt = Some (Inr sig)"
  then obtain dA e where inp: "signInputs E m privKey hash pubKeyOpt userIdOpt = Inr (dA, e)"
    by (auto simp: doSignature_def split: sum.splits)
  with a obtain kk r s where lp: "signLoop E dA e pointPool draws = Some (Inr (kk, r, s))"
    and sg: "sig = (if der then encodeDer E r s else signatureHex r s)"
    by (auto simp: doSignature_def split: sum.splits option.splits)
  from signLoop_accepted [OF lp] inp sg
  show "\<exists>dA e pt r s.
          signInputs E m privKey hash pubKeyOpt userIdOpt = Inr (dA, e)
        \<and> (pt \<in> set pointPool \<or> (\<exists>kp \<in> set draws. getPoint E kp = Inr pt))
        \<and> accepted E dA e pt r s
        \<and> sig = (if der then encodeDer E r s else signatureHex r s)"
    by blast
next
  fix dA e pt pool' draws' r
  assume "takePoint E pointPool draws = Some (Inr pt, pool', draws')
        \<and> r = (e + x1 pt) mod CURVE_n E
        \<and> (r = 0 \<or> r + k pt = CURVE_n E \<or>
            (\<exists>i. field_inv E (dA + 1) = Inr i \<and> (i * (k pt - r * dA)) mod CURVE_n E = 0))"
  then show "signLoop E dA e pointPool draws = signLoop E dA e pool' draws'"
    by (intro signLoop_retry [of E pointPool draws pt pool' draws' r e dA]) auto
qed


theorem doSignature_invariant_witness:
  "doSignature sampleEnv [] (MsgBytes [5]) ''0000000000000000000000000000000000000000000000000000000000000003''
      [\<lparr> k = 2, x1 = 2 \<rparr>, \<lparr> k = 4, x1 = 6 \<rparr>] False False None None = Some (Inr ''00000000000000000000000000000000000000000000000000000000000000070000000000000000000000000000000000000000000000000000000000000009'')
   \<and> signLoop sampleEnv 3 5 [\<lparr> k = 2, x1 = 2 \<rparr>, \<lparr> k = 4, x1 = 6 \<rparr>] []
       = signLoop sampleEnv 3 5 [\<lparr> k = 2, x1 = 2 \<rparr>] []
   \<and> (\<exists>dA e pt r s.
          signInputs sampleEnv (MsgBytes [5]) ''0000000000000000000000000000000000000000000000000000000000000003'' False None None = Inr (dA, e)
        \<and> (pt \<in> set [\<lparr> k = 2, x1 = 2 \<rparr>, \<lparr> k = 4, x1 = 6 \<rparr>]
            \<or> (\<exists>kp \<in> set []. getPoint sampleEnv kp = Inr pt))
        \<and> accepted sampleEnv dA e pt r s
        \<and> ''00000000000000000000000000000000000000000000000000000000000000070000000000000000000000000000000000000000000000000000000000000009'' = (if False then encodeDer sampleEnv r s else signatureHex r s))"
proof -
  have inp: "signInputs sampleEnv (MsgBytes [5]) ''0000000000000000000000000000000000000000000000000000000000000003'' False None None = Inr (3, 5)"
    by (simp add: signInputs_def msgHex_def arrayToHex_def bytesToHex_def byteToHex_def
        hexChar_def hexToNumber_def hexVal_def)
  have tp: "takePoint sampleEnv [\<lparr> k = 2, x1 = 2 \<rparr>, \<lparr> k = 4, x1 = 6 \<rparr>] []
      = Some (Inr \<lparr> k = 4, x1 = 6 \<rparr>, [\<lparr> k = 2, x1 = 2 \<rparr>], [])"
    by (simp add: takePoint_def)
  have n: "CURVE_n sampleEnv = 11"
    by (simp add: sampleEnv_def)
  have l1: "signLoop sampleEnv 3 5 [\<lparr> k = 2, x1 = 2 \<rparr>, \<lparr> k = 4, x1 = 6 \<rparr>] []
       = signLoop sampleEnv 3 5 [\<lparr> k = 2, x1 = 2 \<rparr>] []"
    using doSignature_invariant [of sampleEnv "[]" "MsgBytes [5]" "''0000000000000000000000000000000000000000000000000000000000000003''"
        "[\<lparr> k = 2, x1 = 2 \<rparr>, \<lparr> k = 4, x1 = 6 \<rparr>]" False False None None "''00000000000000000000000000000000000000000000000000000000000000070000000000000000000000000000000000000000000000000000000000000009''",
        THEN conjunct2, rule_format, of "\<lparr> k = 4, x1 = 6 \<rparr>" "[\<lparr> k = 2, x1 = 2 \<rparr>]" "[]" 0 5 3]
      tp by (simp add: n)
  have l2: "signLoop sampleEnv 3 5 [\<lparr> k = 2, x1 = 2 \<rparr>] [] = Some (Inr (2, 7, 9))"
    by (subst signLoop.simps)
       (simp add: takePoint_def field_add_def field_mul_def field_addN_def field_subN_def
          field_mulN_def sampleEnv_def sampleInv_def Let_def)
  have sg: "signatureHex 7 9 = ''00000000000000000000000000000000000000000000000000000000000000070000000000000000000000000000000000000000000000000000000000000009''"
    by code_simp
  have run: "doSignature sampleEnv [] (MsgBytes [5]) ''0000000000000000000000000000000000000000000000000000000000000003''
      [\<lparr> k = 2, x1 = 2 \<rparr>, \<lparr> k = 4, x1 = 6 \<rparr>] False False None None = Some (Inr ''00000000000000000000000000000000000000000000000000000000000000070000000000000000000000000000000000000000000000000000000000000009'')"
    by (simp add: doSignature_def inp l1 l2 sg)
  from doSignature_invariant [of sampleEnv "[]" "MsgBytes [5]" "''0000000000000000000000000000000000000000000000000000000000000003''"
        "[\<lparr> k = 2, x1 = 2 \<rparr>, \<lparr> k = 4, x1 = 6 \<rparr>]" False False None None "''00000000000000000000000000000000000000000000000000000000000000070000000000000000000000000000000000000000000000000000000000000009''",
        THEN conjunct1, rule_format, OF run] run l1
  show ?thesis
    by blast
qed

section \<open>Signing and verification\<close>

lemma sm2_scalar_identity:
  fixes n i dA r s kk :: int
  assumes inv: "(i * (dA + 1)) mod n = 1 mod n"
    and s: "s = (i * (kk - r * dA)) mod n"
  shows "(s + dA * ((r + s) mod n)) mod n = kk mod n"
proof -
  define X where "X = kk - r * dA"
  define J where "J = i * (dA + 1)"
  have "(dA * ((r + s) mod n)) mod n = (dA * (r + s)) mod n"
    by (rule mod_mult_right_eq)
  then have "(s + dA * ((r + s) mod n)) mod n = (s + dA * (r + s)) mod n"
    by (rule mod_add_cong [OF refl])
  also have "s + dA * (r + s) = s * (dA + 1) + dA * r"
    by (simp add: algebra_simps)
  also have "(s * (dA + 1) + dA * r) mod n = ((s * (dA + 1)) mod n + dA * r) mod n"
    by (rule mod_add_left_eq [symmetric])
  also have "(s * (dA + 1)) mod n = ((i * X) * (dA + 1)) mod n"
    unfolding s X_def by (rule mod_mult_left_eq)
  also have "(i * X) * (dA + 1) = J * X"
    by (simp add: J_def algebra_simps)
  also have "(J * X) mod n = ((J mod n) * X) mod n"
    by (rule mod_mult_left_eq [symmetric])
  also have "J mod n = 1 mod n"
    unfolding J_def by (rule inv)
  also have "((1 mod n) * X) mod n = (1 * X) mod n"
    by (rule mod_mult_left_eq)
  also have "((1 * X) mod n + dA * r) mod n = (1 * X + dA * r) mod n"
    by (rule mod_add_left_eq)
  also have "1 * X + dA * r = kk"
    by (simp add: X_def)
  finally show ?thesis .
qed

lemma sm2_t_nonzero:
  fixes n i dA r s kk :: int
  assumes inv: "(i * (dA + 1)) mod n = 1 mod n"
    and s: "s = (i * (kk - r * dA)) mod n"
    and r: "0 < r" "r < n" and kk: "1 \<le> kk" "kk < n" and rk: "r + kk \<noteq> n"
  shows "(r + s) mod n \<noteq> 0"
proof
  assume t: "(r + s) mod n = 0"
  have "kk mod n = (s + dA * ((r + s) mod n)) mod n"
    by (rule sm2_scalar_identity [OF inv s, symmetric])
  also have "\<dots> = s mod n"
    by (simp add: t)
  finally have "(r + kk) mod n = (r + s) mod n"
    by (metis mod_add_right_eq)
  with t have "(r + kk) mod n = 0" by simp
  then have "n dvd r + kk" by (simp add: dvd_eq_mod_eq_0)
  then obtain q where q: "r + kk = n * q" ..
  have n: "0 < n" using r by simp
  have "0 < r + kk" "r + kk < n * 2" using r kk by simp_all
  then have q1: "0 < n * q" and q2: "n * q < n * 2"
    unfolding q by this+
  from q1 n have "0 < q"
    by (simp add: zero_less_mult_iff)
  moreover from q2 n have "q < 2"
    by (simp only: mult_less_cancel_left_pos)
  ultimately have "0 < q" "q < 2" by this+
  then have "q = 1" by simp
  with q rk show False by simp
qed


lemma cyclic_curve_n: "cyclic_curve E emb \<Longrightarrow> 1 < CURVE_n E \<and> CURVE_n E \<le> 2 ^ 256"
  unfolding cyclic_curve_def by blast

lemma cyclic_curve_BASE: "cyclic_curve E emb \<Longrightarrow> BASE E = emb 1"
  unfolding cyclic_curve_def by blast

lemma cyclic_curve_padd: "cyclic_curve E emb \<Longrightarrow> padd E (emb a) (emb b) = emb (a + b)"
  unfolding cyclic_curve_def by blast

lemma cyclic_curve_cong:
  "cyclic_curve E emb \<Longrightarrow> a mod CURVE_n E = b mod CURVE_n E \<Longrightarrow> emb a = emb b"
  unfolding cyclic_curve_def by blast

lemma verifyCore_accepts:
  assumes crv: "cyclic_curve E emb" and inv_ok: "field_inv_ok E"
    and dA: "(dA + 1) mod CURVE_n E \<noteq> 0"
    and pt: "1 \<le> k pt" "k pt < CURVE_n E" "x1 pt = int (pointX E (emb (k pt)))"
    and acc: "accepted E dA e pt r s"
  shows "verifyCore E (emb dA) e r s = Inr True"
proof -
  define n where "n = CURVE_n E"
  have n: "1 < n" using cyclic_curve_n [OF crv] by (simp add: n_def)
  from acc obtain i where r: "r = (e + x1 pt) mod n"
    and i: "field_inv E (dA + 1) = Inr i" and s: "s = (i * (k pt - r * dA)) mod n"
    and nz: "r \<noteq> 0" "s \<noteq> 0" "r + k pt \<noteq> n"
    unfolding accepted_def n_def by (auto split: sum.splits)
  from inv_ok dA obtain b where "field_inv E (dA + 1) = Inr b" "((dA + 1) * b) mod n = 1"
    unfolding field_inv_ok_def n_def by blast
  with i have "((dA + 1) * i) mod n = 1"
    by simp
  then have inv: "(i * (dA + 1)) mod n = 1 mod n"
    using n by (simp add: mult.commute)
  have n0: "0 < n" using n by simp
  have "0 \<le> r" "r < n"
    unfolding r using n0 by (rule pos_mod_sign, rule pos_mod_bound)
  with nz(1) have r0: "0 < r" "r < n"
    by simp_all
  have "0 \<le> s" "s < n"
    unfolding s using n0 by (rule pos_mod_sign, rule pos_mod_bound)
  with nz(2) have s0: "1 \<le> s" "s < n"
    by simp_all
  define tt where "tt = (r + s) mod n"
  have "tt \<noteq> 0"
    unfolding tt_def using sm2_t_nonzero [OF inv s r0 pt(1) _ nz(3)] pt(2) by (simp add: n_def)
  moreover have "0 \<le> tt" "tt < n"
    unfolding tt_def using n0 by (rule pos_mod_sign, rule pos_mod_bound)
  ultimately have t0: "1 \<le> tt" "tt < n"
    by simp_all
  have m1: "multiply E (BASE E) s = Inr (emb s)"
    using cyclic_curve_multiply [OF crv, of s 1] s0 by (simp add: cyclic_curve_BASE [OF crv] n_def)
  have m2: "multiply E (emb dA) tt = Inr (emb (dA * tt))"
    using cyclic_curve_multiply [OF crv, of tt dA] t0 by (simp add: n_def)
  have "(s + dA * tt) mod n = k pt mod n"
    unfolding tt_def by (rule sm2_scalar_identity [OF inv s])
  then have pe: "emb (s + dA * tt) = emb (k pt)"
    unfolding n_def by (rule cyclic_curve_cong [OF crv])
  have "field_add E r s = tt"
    by (simp add: field_add_def tt_def n_def)
  then show ?thesis
    using t0(1)
    by (simp add: verifyCore_def Let_def m1 m2 cyclic_curve_padd [OF crv] pe pt(3) [symmetric]
        field_add_def r n_def)
qed


lemma parseSignature_signatureHex:
  assumes "0 \<le> r" "r < 2 ^ 256" "0 \<le> s" "s < 2 ^ 256"
  shows "parseSignature E (signatureHex r s) False = Inr (r, s)"
proof -
  have r: "nat r < 2 ^ 256" and s: "nat s < 2 ^ 256"
    using assms by (simp_all add: nat_less_iff)
  then have r': "nat r < 256 ^ 32" and s': "nat s < 256 ^ 32"
    by simp_all
  show ?thesis
    using assms(1,3)
    by (simp add: parseSignature_def signatureHex_def coordHex [OF r] coordHex [OF s]
        substring2_def substring1_def bytesToHex_length numberToBytesBE_length
        hexToNumber_numberToBytesBE [OF r'] hexToNumber_numberToBytesBE [OF s'])
qed

lemma parseSignature_encodeDer:
  assumes "asn1_der_ok E" "0 \<le> r" "r < 2 ^ 256" "0 \<le> s" "s < 2 ^ 256"
  shows "parseSignature E (encodeDer E r s) True = Inr (r, s)"
  using assms by (simp add: parseSignature_def asn1_der_ok_def)

lemma getPublicKeyFromPrivateKey_eq:
  assumes crv: "cyclic_curve E emb" and d: "hexToNumber privKey = Inr d" "1 \<le> d" "int d < CURVE_n E"
  shows "getPublicKeyFromPrivateKey E privKey = Inr (toHex E (emb (int d)))"
proof -
  have "multiply E (BASE E) (int d) = Inr (emb (int d))"
    using cyclic_curve_multiply [OF crv, of "int d" 1] d by (simp add: cyclic_curve_BASE [OF crv])
  moreover have "length (bytesToHex (toRawBytes E (emb (int d)))) = 130"
    using toHex_length [of E "emb (int d)"] by (simp add: toHex_def)
  ultimately show ?thesis
    by (simp add: getPublicKeyFromPrivateKey_def getPublicKey_def d(1) leftPad_def toHex_def)
qed

lemma getHash_msgHex:
  "getHash E (Hex (msgHex m)) pk uid
     = getHash E (case m of MsgString str \<Rightarrow> Hex (utf8ToHex str) | MsgBytes b \<Rightarrow> Raw b) pk uid"
  by (cases m) (simp_all add: getHash_def msgHex_def arrayToHex_def hexToArray_bytesToHex)

lemma getPoint_valid:
  assumes crv: "cyclic_curve E emb"
    and kp: "hexToNumber (privateKey kp) = Inr j" "1 \<le> j" "int j < CURVE_n E"
      "publicKey kp = toHex E (emb (int j))"
  shows "getPoint E kp = Inr \<lparr> k = int j, x1 = int (pointX E (emb (int j))) \<rparr>"
proof -
  have "int j mod CURVE_n E \<noteq> 0"
    using cyclic_curve_nonzero [OF crv, of "int j"] kp by simp
  then have "fromHex E (toHex E (emb (int j))) = Inr (emb (int j))"
    by (rule cyclic_curve_fromHex [OF crv])
  then show ?thesis
    by (simp add: getPoint_def kp)
qed

lemma sign_verify_core:
  assumes crv: "cyclic_curve E emb" and inv_ok: "field_inv_ok E" and der_ok: "asn1_der_ok E"
    and d: "hexToNumber privKey = Inr d" "1 \<le> d" "int d < CURVE_n E - 1"
    and pool: "\<forall>pt \<in> set pointPool.
        1 \<le> k pt \<and> k pt < CURVE_n E \<and> x1 pt = int (pointX E (emb (k pt)))"
    and draws: "\<forall>kp \<in> set draws. \<exists>j. hexToNumber (privateKey kp) = Inr j \<and> 1 \<le> j \<and>
        int j < CURVE_n E \<and> publicKey kp = toHex E (emb (int j))"
    and vk: "pubKey = KeyPoint (emb (int d)) \<or> pubKey = KeyHex (toHex E (emb (int d)))"
    and sk: "pubKeyOpt = None \<or> pubKeyOpt = Some (toHex E (emb (int d)))"
    and sg: "doSignature E draws m privKey pointPool der hash pubKeyOpt userIdOpt = Some (Inr sig)"
  shows "doVerifySignature E m sig pubKey der hash userIdOpt = Inr True"
proof -
  define n where "n = CURVE_n E"
  have n: "1 < n" "n \<le> 2 ^ 256"
    using cyclic_curve_n [OF crv] by (simp_all add: n_def)
  have d': "int d < CURVE_n E"
    using d(3) by simp
  define pkh where "pkh = toHex E (emb (int d))"
  from sg obtain dA e where inp: "signInputs E m privKey hash pubKeyOpt userIdOpt = Inr (dA, e)"
    by (auto simp: doSignature_def split: sum.splits)
  with sg obtain kk r s where lp: "signLoop E dA e pointPool draws = Some (Inr (kk, r, s))"
    and sig: "sig = (if der then encodeDer E r s else signatureHex r s)"
    by (auto simp: doSignature_def split: sum.splits option.splits)
  from signLoop_accepted [OF lp] obtain pt where
    src: "pt \<in> set pointPool \<or> (\<exists>kp \<in> set draws. getPoint E kp = Inr pt)"
    and acc: "accepted E dA e pt r s"
    by blast
  have pt: "1 \<le> k pt \<and> k pt < CURVE_n E \<and> x1 pt = int (pointX E (emb (k pt)))"
    using src
  proof
    assume "pt \<in> set pointPool"
    with pool show ?thesis by blast
  next
    assume "\<exists>kp \<in> set draws. getPoint E kp = Inr pt"
    then obtain kp where kp: "kp \<in> set draws" "getPoint E kp = Inr pt"
      by blast
    with draws obtain j where j: "hexToNumber (privateKey kp) = Inr j" "1 \<le> j"
        "int j < CURVE_n E" "publicKey kp = toHex E (emb (int j))"
      by blast
    from getPoint_valid [OF crv j] kp(2) have "pt = \<lparr> k = int j, x1 = int (pointX E (emb (int j))) \<rparr>"
      by simp
    with j show ?thesis by simp
  qed
  have spk: "(case pubKeyOpt of
                Some pk \<Rightarrow> if pk = [] then getPublicKeyFromPrivateKey E privKey else Inr pk
              | None \<Rightarrow> getPublicKeyFromPrivateKey E privKey) = Inr pkh"
    using sk getPublicKeyFromPrivateKey_eq [OF crv d(1,2) d'] toHex_length [of E "emb (int d)"]
    by (auto simp: pkh_def)
  define hashHex where "hashHex =
    (if hash then getHash E (case m of MsgString str \<Rightarrow> Hex (utf8ToHex str) | MsgBytes b \<Rightarrow> Raw b)
        pkh userIdOpt else Inr (msgHex m))"
  have inp': "ebind hashHex (\<lambda>hh. ebind (hexToNumber hh) (\<lambda>e. Inr (int d, int e))) = Inr (dA, e)"
    using inp by (cases hash) (simp_all add: signInputs_def spk hashHex_def getHash_msgHex d(1))
  then obtain hh e0 where hh: "hashHex = Inr hh" "hexToNumber hh = Inr e0" "dA = int d" "e = int e0"
    by (cases hashHex; cases "hexToNumber (projr hashHex)") auto
  have dA1: "(dA + 1) mod CURVE_n E \<noteq> 0"
    using d(2,3) by (simp add: hh(3))
  from acc have rs: "0 \<le> r" "r < n" "0 \<le> s" "s < n"
    using n(1) by (auto simp: accepted_def n_def split: sum.splits)
  then have b: "0 \<le> r" "r < 2 ^ 256" "0 \<le> s" "s < 2 ^ 256"
    using n(2) by simp_all
  have ps: "parseSignature E sig der = Inr (r, s)"
    unfolding sig
    using parseSignature_signatureHex [OF b] parseSignature_encodeDer [OF der_ok b]
    by (cases der) simp_all
  have pkhex: "(case pubKey of KeyHex h \<Rightarrow> h | KeyPoint P \<Rightarrow> toHex E P) = pkh"
    using vk by (auto simp: pkh_def)
  have "int d mod CURVE_n E \<noteq> 0"
    using cyclic_curve_nonzero [OF crv, of "int d"] d(2) d' by simp
  then have "fromHex E (toHex E (emb (int d))) = Inr (emb (int d))"
    by (rule cyclic_curve_fromHex [OF crv])
  then have pa: "(case pubKey of KeyHex h \<Rightarrow> fromHex E h | KeyPoint P \<Rightarrow> Inr P) = Inr (emb dA)"
    using vk by (auto simp: hh(3))
  have vc: "verifyCore E (emb dA) e r s = Inr True"
    using verifyCore_accepts [OF crv inv_ok dA1 _ _ _ acc] pt by blast
  show ?thesis
    using hh(1,2)
    by (simp add: doVerifySignature_def verifyHashHex_def Let_def pkhex hashHex_def [symmetric] ps pa
        hh(4) [symmetric] vc)
qed


lemma parseHex_byteToHex: "parseHex acc (byteToHex b @ cs) = parseHex (256 * acc + unat b) cs"
proof -
  have "unat b < 256"
    using unsigned_less [of b, where 'a = nat] by simp
  then have "parseHex acc (byteToHex (of_nat (unat b))) = Inr (256 * acc + unat b)"
    by (rule parseHex_byte)
  then show ?thesis
    by (simp add: parseHex_append)
qed

lemma parseHex_bytesToHex_total: "\<exists>v. parseHex acc (bytesToHex bs) = Inr v"
proof (induction bs arbitrary: acc)
  case Nil
  show ?case by (simp add: bytesToHex_def)
next
  case (Cons b bs)
  have "bytesToHex (b # bs) = byteToHex b @ bytesToHex bs"
    by (simp add: bytesToHex_def)
  then show ?case
    using Cons.IH [of "256 * acc + unat b"] by (simp add: parseHex_byteToHex)
qed

lemma hexToNumber_bytesToHex_total: "\<exists>v. hexToNumber (bytesToHex bs) = Inr v"
  unfolding hexToNumber_def by (rule parseHex_bytesToHex_total)

lemma hexToNumber_msgHex_total: "\<exists>v. hexToNumber (msgHex m) = Inr v"
  by (cases m) (simp_all add: msgHex_def utf8ToHex_def arrayToHex_def hexToNumber_bytesToHex_total)


lemma signLoop_step:
  assumes "takePoint E pointPool draws = Some (Inr pt, pool', draws')"
    and "field_inv E (dA + 1) = Inr i"
  shows "signLoop E dA e pointPool draws =
     (let r = (e + x1 pt) mod CURVE_n E; s = (i * (k pt - r * dA)) mod CURVE_n E
      in if r = 0 \<or> r + k pt = CURVE_n E \<or> s = 0 then signLoop E dA e pool' draws'
         else Some (Inr (k pt, r, s)))"
  using assms
  by (subst signLoop.simps)
     (simp add: Let_def field_add_def field_mul_def field_subN_def field_mulN_def field_addN_def)

lemma accepted_step:
  assumes "field_inv E (dA + 1) = Inr i" "accepted E dA e pt r s"
  shows "r = (e + x1 pt) mod CURVE_n E \<and> s = (i * (k pt - r * dA)) mod CURVE_n E
       \<and> r \<noteq> 0 \<and> s \<noteq> 0 \<and> r + k pt \<noteq> CURVE_n E"
  using assms by (auto simp: accepted_def)

lemma signLoop_draws:
  assumes inv: "field_inv E (dA + 1) = Inr i"
  shows "\<forall>kp \<in> set draws. \<exists>pt. getPoint E kp = Inr pt \<Longrightarrow>
    (\<forall>err. signLoop E dA e [] draws \<noteq> Some (Inl err)) \<and>
    ((\<exists>pt r s. (\<exists>kp \<in> set draws. getPoint E kp = Inr pt) \<and> accepted E dA e pt r s) \<longrightarrow>
       (\<exists>res. signLoop E dA e [] draws = Some (Inr res)))"
proof (induction draws)
  case Nil
  have "signLoop E dA e [] [] = None"
    by (subst signLoop.simps) (simp add: takePoint_def)
  then show ?case by simp
next
  case (Cons kp ds)
  from Cons.prems obtain pt0 where pt0: "getPoint E kp = Inr pt0"
    by auto
  have tp: "takePoint E [] (kp # ds) = Some (Inr pt0, [], ds)"
    by (simp add: takePoint_def pt0)
  note st = signLoop_step [OF tp inv, of e]
  from Cons.prems have ih: "(\<forall>err. signLoop E dA e [] ds \<noteq> Some (Inl err)) \<and>
    ((\<exists>pt r s. (\<exists>kp \<in> set ds. getPoint E kp = Inr pt) \<and> accepted E dA e pt r s) \<longrightarrow>
       (\<exists>res. signLoop E dA e [] ds = Some (Inr res)))"
    by (intro Cons.IH) simp
  define r0 where "r0 = (e + x1 pt0) mod CURVE_n E"
  define s0 where "s0 = (i * (k pt0 - r0 * dA)) mod CURVE_n E"
  show ?case
  proof (cases "r0 = 0 \<or> r0 + k pt0 = CURVE_n E \<or> s0 = 0")
    case True
    then have eq: "signLoop E dA e [] (kp # ds) = signLoop E dA e [] ds"
      unfolding st r0_def s0_def by (simp add: Let_def)
    have "\<exists>kp' \<in> set ds. getPoint E kp' = Inr pt"
      if "\<exists>kp' \<in> set (kp # ds). getPoint E kp' = Inr pt" "accepted E dA e pt r s" for pt r s
    proof -
      from that(1) consider "getPoint E kp = Inr pt" | "\<exists>kp' \<in> set ds. getPoint E kp' = Inr pt"
        by auto
      then show ?thesis
      proof cases
        case 1
        with pt0 have "pt = pt0" by simp
        with accepted_step [OF inv that(2)] True show ?thesis
          by (auto simp: r0_def s0_def)
      next
        case 2
        then show ?thesis .
      qed
    qed
    with ih show ?thesis
      unfolding eq by blast
  next
    case False
    then have "signLoop E dA e [] (kp # ds) = Some (Inr (k pt0, r0, s0))"
      unfolding st r0_def s0_def by (simp add: Let_def)
    then show ?thesis by simp
  qed
qed


lemma signLoop_total:
  assumes inv: "field_inv E (dA + 1) = Inr i"
    and dr: "\<forall>kp \<in> set draws. \<exists>pt. getPoint E kp = Inr pt"
  shows "(\<forall>err. signLoop E dA e pointPool draws \<noteq> Some (Inl err)) \<and>
    ((\<exists>pt r s. (pt \<in> set pointPool \<or> (\<exists>kp \<in> set draws. getPoint E kp = Inr pt))
         \<and> accepted E dA e pt r s) \<longrightarrow>
       (\<exists>res. signLoop E dA e pointPool draws = Some (Inr res)))"
proof (induction pointPool rule: rev_induct)
  case Nil
  show ?case
    using signLoop_draws [OF inv dr, of e] by simp
next
  case (snoc pt0 ps)
  have tp: "takePoint E (ps @ [pt0]) draws = Some (Inr pt0, ps, draws)"
    by (simp add: takePoint_def)
  note st = signLoop_step [OF tp inv, of e]
  define r0 where "r0 = (e + x1 pt0) mod CURVE_n E"
  define s0 where "s0 = (i * (k pt0 - r0 * dA)) mod CURVE_n E"
  show ?case
  proof (cases "r0 = 0 \<or> r0 + k pt0 = CURVE_n E \<or> s0 = 0")
    case True
    then have eq: "signLoop E dA e (ps @ [pt0]) draws = signLoop E dA e ps draws"
      unfolding st r0_def s0_def by (simp add: Let_def)
    have "pt \<in> set ps \<or> (\<exists>kp \<in> set draws. getPoint E kp = Inr pt)"
      if "pt \<in> set (ps @ [pt0]) \<or> (\<exists>kp \<in> set draws. getPoint E kp = Inr pt)"
        "accepted E dA e pt r s" for pt r s
    proof (cases "pt = pt0")
      case True
      with accepted_step [OF inv that(2)] \<open>r0 = 0 \<or> r0 + k pt0 = CURVE_n E \<or> s0 = 0\<close>
      show ?thesis
        by (auto simp: r0_def s0_def)
    next
      case False
      with that(1) show ?thesis by auto
    qed
    with snoc.IH show ?thesis
      unfolding eq by blast
  next
    case False
    then have "signLoop E dA e (ps @ [pt0]) draws = Some (Inr (k pt0, r0, s0))"
      unfolding st r0_def s0_def by (simp add: Let_def)
    then show ?thesis by simp
  qed
qed

lemma getHash_ok:
  assumes crv: "cyclic_curve E emb"
    and par: "CURVE_a E < 2 ^ 256" "CURVE_b E < 2 ^ 256"
    and a: "a mod CURVE_n E \<noteq> 0"
  shows "\<exists>hb. getHash E (Hex (msgHex m)) (toHex E (emb a)) userIdOpt = Inr (bytesToHex hb)"
proof -
  define uid where "uid = (case userIdOpt of None \<Rightarrow> ''1234567812345678'' | Some u \<Rightarrow> u)"
  define pkb where "pkb = numberToBytesBE 32 (pointX E (emb a)) @ numberToBytesBE 32 (pointY E (emb a))"
  have g: "pointX E (BASE E) < 2 ^ 256" "pointY E (BASE E) < 2 ^ 256"
    using cyclic_curve_coord [OF crv, of 1] by (simp_all add: cyclic_curve_BASE [OF crv])
  have pk: "(length (toHex E (emb a)) = 128 \<and> hexToArray (toHex E (emb a)) = Inr pkb) \<or>
     (length (toHex E (emb a)) \<noteq> 128 \<and> (\<exists>P. fromHex E (toHex E (emb a)) = Inr P \<and>
        pointX E P < 2 ^ 256 \<and> pointY E P < 2 ^ 256 \<and>
        pkb = numberToBytesBE 32 (pointX E P) @ numberToBytesBE 32 (pointY E P)))"
    using cyclic_curve_fromHex [OF crv a] cyclic_curve_coord [OF crv, of a]
    by (simp add: toHex_length pkb_def)
  from getZ_eq [OF par g pk uid_def] obtain z where "getZ E (toHex E (emb a)) userIdOpt = Inr z"
    by blast
  then have "getHash E (Hex (msgHex m)) (toHex E (emb a)) userIdOpt
      = Inr (bytesToHex (sm3 E (z @ msgBytes m)))"
    by (cases m) (simp_all add: getHash_def msgHex_def msgBytes_def utf8ToHex_def arrayToHex_def
        hexToArray_bytesToHex)
  then show ?thesis by blast
qed

lemma signInputs_ok:
  assumes crv: "cyclic_curve E emb"
    and par: "CURVE_a E < 2 ^ 256" "CURVE_b E < 2 ^ 256"
    and d: "hexToNumber privKey = Inr d" "1 \<le> d" "int d < CURVE_n E"
    and sk: "pubKeyOpt = None \<or> pubKeyOpt = Some (toHex E (emb (int d)))"
  shows "\<exists>e. signInputs E m privKey hash pubKeyOpt userIdOpt = Inr (int d, int e)"
proof -
  have spk: "(case pubKeyOpt of
                Some pk \<Rightarrow> if pk = [] then getPublicKeyFromPrivateKey E privKey else Inr pk
              | None \<Rightarrow> getPublicKeyFromPrivateKey E privKey) = Inr (toHex E (emb (int d)))"
    using sk getPublicKeyFromPrivateKey_eq [OF crv d] toHex_length [of E "emb (int d)"]
    by auto
  have dn: "int d mod CURVE_n E \<noteq> 0"
    using cyclic_curve_nonzero [OF crv, of "int d"] d by simp
  from getHash_ok [OF crv par dn] obtain hb where
    hb: "getHash E (Hex (msgHex m)) (toHex E (emb (int d))) userIdOpt = Inr (bytesToHex hb)"
    by blast
  obtain e1 where e1: "hexToNumber (bytesToHex hb) = Inr e1"
    using hexToNumber_bytesToHex_total by blast
  obtain e2 where e2: "hexToNumber (msgHex m) = Inr e2"
    using hexToNumber_msgHex_total by blast
  show ?thesis
    by (cases hash) (simp_all add: signInputs_def spk hb e1 e2 d(1))
qed

text \<open>
  C2. For a key pair \<open>(d, P)\<close> with \<open>P = d \<cdot> G\<close>, \<open>d\<close> in \<open>[1, n - 2]\<close>, and draws \<open>(k, x1)\<close>
  with \<open>k\<close> in \<open>[1, n - 1]\<close> and \<open>x1\<close> the abscissa of \<open>k \<cdot> G\<close> (from the pool or from the random
  source): \<open>doSignature\<close> raises no error, it returns a signature as soon as one of the
  draws passes the three checks of the loop, and a signature that it returns is
  accepted by \<open>doVerifySignature\<close> under the same options, with the \<open>Z\<close> pre-hash on
  or off and in raw or DER framing.
\<close>

theorem sign_verify_roundtrip:
  assumes crv: "cyclic_curve E emb" and inv_ok: "field_inv_ok E" and der_ok: "asn1_der_ok E"
    and par: "CURVE_a E < 2 ^ 256" "CURVE_b E < 2 ^ 256"
    and d: "hexToNumber privKey = Inr d" "1 \<le> d" "int d < CURVE_n E - 1"
    and pool: "\<forall>pt \<in> set pointPool.
        1 \<le> k pt \<and> k pt < CURVE_n E \<and> x1 pt = int (pointX E (emb (k pt)))"
    and draws: "\<forall>kp \<in> set draws. \<exists>j. hexToNumber (privateKey kp) = Inr j \<and> 1 \<le> j \<and>
        int j < CURVE_n E \<and> publicKey kp = toHex E (emb (int j))"
    and vk: "pubKey = KeyPoint (emb (int d)) \<or> pubKey = KeyHex (toHex E (emb (int d)))"
    and sk: "pubKeyOpt = None \<or> pubKeyOpt = Some (toHex E (emb (int d)))"
  shows "(\<forall>err. doSignature E draws m privKey pointPool der hash pubKeyOpt userIdOpt \<noteq> Some (Inl err))
     \<and> ((\<exists>pt r s e. signInputs E m privKey hash pubKeyOpt userIdOpt = Inr (int d, e)
            \<and> (pt \<in> set pointPool \<or> (\<exists>kp \<in> set draws. getPoint E kp = Inr pt))
            \<and> accepted E (int d) e pt r s)
          \<longrightarrow> (\<exists>sig. doSignature E draws m privKey pointPool der hash pubKeyOpt userIdOpt
                      = Some (Inr sig)))
     \<and> (\<forall>sig. doSignature E draws m privKey pointPool der hash pubKeyOpt userIdOpt = Some (Inr sig)
          \<longrightarrow> doVerifySignature E m sig pubKey der hash userIdOpt = Inr True)"
proof -
  have d': "int d < CURVE_n E"
    using d(3) by simp
  from signInputs_ok [OF crv par d(1,2) d' sk] obtain e0 where
    inp: "signInputs E m privKey hash pubKeyOpt userIdOpt = Inr (int d, int e0)"
    by blast
  have "(int d + 1) mod CURVE_n E \<noteq> 0"
    using d(2,3) by simp
  with inv_ok obtain i where inv: "field_inv E (int d + 1) = Inr i"
    unfolding field_inv_ok_def by blast
  have dr: "\<forall>kp \<in> set draws. \<exists>pt. getPoint E kp = Inr pt"
  proof
    fix kp assume "kp \<in> set draws"
    with draws obtain j where "hexToNumber (privateKey kp) = Inr j" "1 \<le> j"
        "int j < CURVE_n E" "publicKey kp = toHex E (emb (int j))"
      by blast
    from getPoint_valid [OF crv this] show "\<exists>pt. getPoint E kp = Inr pt"
      by blast
  qed
  note tot = signLoop_total [OF inv dr, of "int e0" pointPool]
  have noerr: "\<forall>err. doSignature E draws m privKey pointPool der hash pubKeyOpt userIdOpt \<noteq> Some (Inl err)"
    using tot by (auto simp: doSignature_def inp split: option.splits sum.splits)
  have prog: "(\<exists>pt r s e. signInputs E m privKey hash pubKeyOpt userIdOpt = Inr (int d, e)
            \<and> (pt \<in> set pointPool \<or> (\<exists>kp \<in> set draws. getPoint E kp = Inr pt))
            \<and> accepted E (int d) e pt r s)
          \<longrightarrow> (\<exists>sig. doSignature E draws m privKey pointPool der hash pubKeyOpt userIdOpt
                      = Some (Inr sig))"
  proof
    assume "\<exists>pt r s e. signInputs E m privKey hash pubKeyOpt userIdOpt = Inr (int d, e)
            \<and> (pt \<in> set pointPool \<or> (\<exists>kp \<in> set draws. getPoint E kp = Inr pt))
            \<and> accepted E (int d) e pt r s"
    then obtain pt r s where "pt \<in> set pointPool \<or> (\<exists>kp \<in> set draws. getPoint E kp = Inr pt)"
        "accepted E (int d) (int e0) pt r s"
      using inp by auto
    with tot obtain res where "signLoop E (int d) (int e0) pointPool draws = Some (Inr res)"
      by blast
    then show "\<exists>sig. doSignature E draws m privKey pointPool der hash pubKeyOpt userIdOpt
                      = Some (Inr sig)"
      by (cases res) (simp add: doSignature_def inp)
  qed
  have ver: "\<forall>sig. doSignature E draws m privKey pointPool der hash pubKeyOpt userIdOpt = Some (Inr sig)
          \<longrightarrow> doVerifySignature E m sig pubKey der hash userIdOpt = Inr True"
    using sign_verify_core [OF crv inv_ok der_ok d pool draws vk sk] by blast
  from noerr prog ver show ?thesis
    by blast
qed

theorem sign_verify_roundtrip_witness:
  "cyclic_curve sampleEnv sampleEmb \<and> field_inv_ok sampleEnv \<and> asn1_der_ok sampleEnv
   \<and> CURVE_a sampleEnv < 2 ^ 256 \<and> CURVE_b sampleEnv < 2 ^ 256
   \<and> hexToNumber ''0000000000000000000000000000000000000000000000000000000000000003'' = Inr 3 \<and> int 3 < CURVE_n sampleEnv - 1
   \<and> signInputs sampleEnv (MsgBytes [5]) ''0000000000000000000000000000000000000000000000000000000000000003'' False None None = Inr (int 3, 5)
   \<and> accepted sampleEnv (int 3) 5 \<lparr> k = 2, x1 = 2 \<rparr> 7 9
   \<and> doSignature sampleEnv [] (MsgBytes [5]) ''0000000000000000000000000000000000000000000000000000000000000003'' [\<lparr> k = 2, x1 = 2 \<rparr>] False False None None
       = Some (Inr ''00000000000000000000000000000000000000000000000000000000000000070000000000000000000000000000000000000000000000000000000000000009'')
   \<and> doVerifySignature sampleEnv (MsgBytes [5]) ''00000000000000000000000000000000000000000000000000000000000000070000000000000000000000000000000000000000000000000000000000000009'' (KeyPoint 3) False False None = Inr True"
proof -
  have d: "hexToNumber ''0000000000000000000000000000000000000000000000000000000000000003'' = Inr 3"
    by (simp add: hexToNumber_def hexVal_def)
  have n: "CURVE_n sampleEnv = 11"
    by (simp add: sampleEnv_def)
  have par: "CURVE_a sampleEnv < 2 ^ 256" "CURVE_b sampleEnv < 2 ^ 256"
    by (simp_all add: sampleEnv_def)
  have d1: "1 \<le> (3::nat)"
    by simp
  have d3: "int 3 < CURVE_n sampleEnv - 1"
    by (simp add: n)
  have pool: "\<forall>pt \<in> set [\<lparr> k = 2, x1 = 2 \<rparr>].
      1 \<le> k pt \<and> k pt < CURVE_n sampleEnv \<and> x1 pt = int (pointX sampleEnv (sampleEmb (k pt)))"
    by (simp add: sampleEnv_def sampleEmb_def)
  have draws: "\<forall>kp \<in> set []. \<exists>j. hexToNumber (privateKey kp) = Inr j \<and> 1 \<le> j \<and>
        int j < CURVE_n sampleEnv \<and> publicKey kp = toHex sampleEnv (sampleEmb (int j))"
    by simp
  have inp: "signInputs sampleEnv (MsgBytes [5]) ''0000000000000000000000000000000000000000000000000000000000000003'' False None None = Inr (int 3, 5)"
    by (simp add: signInputs_def msgHex_def arrayToHex_def bytesToHex_def byteToHex_def
        hexChar_def hexToNumber_def hexVal_def)
  have acc: "accepted sampleEnv (int 3) 5 \<lparr> k = 2, x1 = 2 \<rparr> 7 9"
    by (simp add: accepted_def sampleEnv_def sampleInv_def)
  have lp: "signLoop sampleEnv 3 5 [\<lparr> k = 2, x1 = 2 \<rparr>] [] = Some (Inr (2, 7, 9))"
    by (subst signLoop.simps)
       (simp add: takePoint_def field_add_def field_mul_def field_addN_def field_subN_def
          field_mulN_def sampleEnv_def sampleInv_def Let_def)
  have sg: "signatureHex 7 9 = ''00000000000000000000000000000000000000000000000000000000000000070000000000000000000000000000000000000000000000000000000000000009''"
    by code_simp
  have run: "doSignature sampleEnv [] (MsgBytes [5]) ''0000000000000000000000000000000000000000000000000000000000000003'' [\<lparr> k = 2, x1 = 2 \<rparr>] False False None None
       = Some (Inr ''00000000000000000000000000000000000000000000000000000000000000070000000000000000000000000000000000000000000000000000000000000009'')"
    using inp by (simp add: doSignature_def lp sg)
  have vk: "KeyPoint 3 = KeyPoint (sampleEmb (int 3)) \<or> KeyPoint 3 = KeyHex (toHex sampleEnv (sampleEmb (int 3)))"
    by (simp add: sampleEmb_def)
  have sk: "None = None \<or> None = Some (toHex sampleEnv (sampleEmb (int 3)))"
    by simp
  note th = sign_verify_roundtrip [OF sample_cyclic_curve sample_field_inv_ok sample_asn1_der_ok
          par d d1 d3 pool draws vk sk, of "MsgBytes [5]" False False None]
  from th run have "doVerifySignature sampleEnv (MsgBytes [5]) ''00000000000000000000000000000000000000000000000000000000000000070000000000000000000000000000000000000000000000000000000000000009'' (KeyPoint 3) False False None = Inr True"
    by blast
  with sample_cyclic_curve sample_field_inv_ok sample_asn1_der_ok par d d3 inp acc run show ?thesis
    by blast
qed

section \<open>Rejection by the verifier\<close>




text \<open>
  C10. Without DER, \<open>r\<close> is read from the first 64 characters of the signature string
  and \<open>s\<close> from all the rest, whatever the length of the string; the outcome of
  \<open>doVerifySignature\<close> depends on the string only through these two numbers.
\<close>

theorem verify_raw_split:
  "parseSignature E signHex False
     = ebind (hexToNumber (take 64 signHex)) (\<lambda>r.
       ebind (hexToNumber (drop 64 signHex)) (\<lambda>s. Inr (int r, int s)))
   \<and> (parseSignature E signHex False = parseSignature E signHex' False \<longrightarrow>
        doVerifySignature E m signHex pubKey False hash userIdOpt
          = doVerifySignature E m signHex' pubKey False hash userIdOpt)"
  by (simp add: parseSignature_def substring2_def substring1_def doVerifySignature_def)

theorem verify_raw_split_witness:
  "length ''000000000000000000000000000000000000000000000000000000000000000700000000000000000000000000000000000000000000000000000009'' = 120
   \<and> hexToNumber (take 64 ''000000000000000000000000000000000000000000000000000000000000000700000000000000000000000000000000000000000000000000000009'') = Inr 7 \<and> length (drop 64 ''000000000000000000000000000000000000000000000000000000000000000700000000000000000000000000000000000000000000000000000009'') = 56
   \<and> hexToNumber (drop 64 ''000000000000000000000000000000000000000000000000000000000000000700000000000000000000000000000000000000000000000000000009'') = Inr 9
   \<and> parseSignature sampleEnv ''000000000000000000000000000000000000000000000000000000000000000700000000000000000000000000000000000000000000000000000009'' False = parseSignature sampleEnv ''00000000000000000000000000000000000000000000000000000000000000070000000000000000000000000000000000000000000000000000000000000009'' False
   \<and> doVerifySignature sampleEnv (MsgBytes [5]) ''000000000000000000000000000000000000000000000000000000000000000700000000000000000000000000000000000000000000000000000009'' (KeyPoint 3) False False None
       = doVerifySignature sampleEnv (MsgBytes [5]) ''00000000000000000000000000000000000000000000000000000000000000070000000000000000000000000000000000000000000000000000000000000009'' (KeyPoint 3) False False None
   \<and> doVerifySignature sampleEnv (MsgBytes [5]) ''000000000000000000000000000000000000000000000000000000000000000700000000000000000000000000000000000000000000000000000009'' (KeyPoint 3) False False None = Inr True"
proof -
  have l: "length ''000000000000000000000000000000000000000000000000000000000000000700000000000000000000000000000000000000000000000000000009'' = 120" "length (drop 64 ''000000000000000000000000000000000000000000000000000000000000000700000000000000000000000000000000000000000000000000000009'') = 56"
    by simp_all
  have r: "hexToNumber (take 64 ''000000000000000000000000000000000000000000000000000000000000000700000000000000000000000000000000000000000000000000000009'') = Inr 7" and s: "hexToNumber (drop 64 ''000000000000000000000000000000000000000000000000000000000000000700000000000000000000000000000000000000000000000000000009'') = Inr 9"
    by (simp_all add: hexToNumber_def hexVal_def)
  have r': "hexToNumber (take 64 ''00000000000000000000000000000000000000000000000000000000000000070000000000000000000000000000000000000000000000000000000000000009'') = Inr 7" and s': "hexToNumber (drop 64 ''00000000000000000000000000000000000000000000000000000000000000070000000000000000000000000000000000000000000000000000000000000009'') = Inr 9"
    by (simp_all add: hexToNumber_def hexVal_def)
  note th = verify_raw_split [of sampleEnv _ _ "MsgBytes [5]" "KeyPoint 3" False None]
  have p120: "parseSignature sampleEnv ''000000000000000000000000000000000000000000000000000000000000000700000000000000000000000000000000000000000000000000000009'' False = Inr (7, 9)"
    using th [of "''000000000000000000000000000000000000000000000000000000000000000700000000000000000000000000000000000000000000000000000009''" "''000000000000000000000000000000000000000000000000000000000000000700000000000000000000000000000000000000000000000000000009''", THEN conjunct1] by (simp only: r s) simp
  have p128: "parseSignature sampleEnv ''00000000000000000000000000000000000000000000000000000000000000070000000000000000000000000000000000000000000000000000000000000009'' False = Inr (7, 9)"
    using th [of "''00000000000000000000000000000000000000000000000000000000000000070000000000000000000000000000000000000000000000000000000000000009''" "''00000000000000000000000000000000000000000000000000000000000000070000000000000000000000000000000000000000000000000000000000000009''", THEN conjunct1] by (simp only: r' s') simp
  have same: "doVerifySignature sampleEnv (MsgBytes [5]) ''000000000000000000000000000000000000000000000000000000000000000700000000000000000000000000000000000000000000000000000009'' (KeyPoint 3) False False None
       = doVerifySignature sampleEnv (MsgBytes [5]) ''00000000000000000000000000000000000000000000000000000000000000070000000000000000000000000000000000000000000000000000000000000009'' (KeyPoint 3) False False None"
    using th [of "''000000000000000000000000000000000000000000000000000000000000000700000000000000000000000000000000000000000000000000000009''" "''00000000000000000000000000000000000000000000000000000000000000070000000000000000000000000000000000000000000000000000000000000009''", THEN conjunct2] p120 p128 by simp
  have hh: "verifyHashHex sampleEnv (MsgBytes [5]) (KeyPoint 3) False None = Inr ''05''"
    by (simp add: verifyHashHex_def msgHex_def arrayToHex_def bytesToHex_def byteToHex_def hexChar_def)
  have e: "hexToNumber ''05'' = Inr 5"
    by (simp add: hexToNumber_def hexVal_def)
  have vc: "verifyCore sampleEnv 3 5 7 9 = Inr True"
    by (simp add: verifyCore_def field_add_def sampleEnv_def Let_def)
  have acc: "doVerifySignature sampleEnv (MsgBytes [5]) ''000000000000000000000000000000000000000000000000000000000000000700000000000000000000000000000000000000000000000000000009'' (KeyPoint 3) False False None = Inr True"
    by (simp add: p120 doVerifySignature_def hh e vc)
  from l r s p120 p128 same acc show ?thesis
    by simp
qed

section \<open>Verification on the SM2 curve\<close>

lemma sm2_mul_one: "sm2_mul P 1 = P"
proof -
  have "sm2_mul (sm2_double P) 0 = PointZero"
    by (subst sm2_mul.simps) simp
  then have "sm2_mul P 1 = sm2_add P PointZero"
    by (subst sm2_mul.simps) simp
  then show ?thesis
    by (cases P) (simp_all add: sm2_add_def)
qed





section \<open>The public key\<close>

text \<open>
  C9, as the code has it. For \<open>d\<close> in \<open>[1, n - 1]\<close>, \<open>getPublicKeyFromPrivateKey\<close> returns
  130 hex characters: the prefix \<open>04\<close>, then the 128 characters of \<open>X || Y\<close> of \<open>d \<cdot> G\<close>,
  each coordinate 32 bytes big-endian, zero-padded; so does the variant of the
  function on the big-integer library.
\<close>

theorem public_key_hex_format:
  assumes crv: "cyclic_curve E emb"
    and d: "hexToNumber privKey = Inr d" "1 \<le> d" "int d < CURVE_n E"
  shows "\<exists>h. getPublicKeyFromPrivateKey E privKey = Inr (''04'' @ h) \<and> length h = 128
      \<and> h = leftPad (numberToHexUnpadded (pointX E (emb (int d)))) 64
           @ leftPad (numberToHexUnpadded (pointY E (emb (int d)))) 64
      \<and> h = bytesToHex (numberToBytesBE 32 (pointX E (emb (int d))))
           @ bytesToHex (numberToBytesBE 32 (pointY E (emb (int d))))
      \<and> getPublicKeyFromPrivateKey_jsbn E privKey = Inr (''04'' @ h)"
proof -
  define h where "h = bytesToHex (numberToBytesBE 32 (pointX E (emb (int d))))
           @ bytesToHex (numberToBytesBE 32 (pointY E (emb (int d))))"
  have "multiply E (BASE E) (int d) = Inr (emb (int d))"
    using cyclic_curve_multiply [OF crv, of "int d" 1] d by (simp add: cyclic_curve_BASE [OF crv])
  moreover have "leftPad (toString16 (pointX E (emb (int d)))) 64
        = bytesToHex (numberToBytesBE 32 (pointX E (emb (int d))))"
      "leftPad (toString16 (pointY E (emb (int d)))) 64
        = bytesToHex (numberToBytesBE 32 (pointY E (emb (int d))))"
    using cyclic_curve_coord [OF crv, of "int d"]
      leftPad_toString16 [of "pointX E (emb (int d))" 32]
      leftPad_toString16 [of "pointY E (emb (int d))" 32]
    by simp_all
  ultimately have jsbn: "getPublicKeyFromPrivateKey_jsbn E privKey = Inr (''04'' @ h)"
    by (simp add: getPublicKeyFromPrivateKey_jsbn_def d(1) h_def Let_def)
  have "getPublicKeyFromPrivateKey E privKey = Inr (''04'' @ h)"
    using getPublicKeyFromPrivateKey_eq [OF crv d]
    by (simp add: toHex_split h_def bytesToHex_append)
  moreover have "length h = 128"
    by (simp add: h_def bytesToHex_length numberToBytesBE_length)
  moreover have "h = leftPad (numberToHexUnpadded (pointX E (emb (int d)))) 64
           @ leftPad (numberToHexUnpadded (pointY E (emb (int d)))) 64"
    using cyclic_curve_coord [OF crv, of "int d"] by (simp add: h_def coordHex)
  ultimately show ?thesis
    using jsbn unfolding h_def by blast
qed

theorem public_key_hex_format_witness:
  "cyclic_curve sampleEnv sampleEmb \<and> hexToNumber ''0000000000000000000000000000000000000000000000000000000000000003'' = Inr 3 \<and> int 3 < CURVE_n sampleEnv
   \<and> (\<exists>h. getPublicKeyFromPrivateKey sampleEnv ''0000000000000000000000000000000000000000000000000000000000000003'' = Inr (''04'' @ h) \<and> length h = 128
        \<and> h = bytesToHex (numberToBytesBE 32 3) @ bytesToHex (numberToBytesBE 32 10))"
proof -
  have d: "hexToNumber ''0000000000000000000000000000000000000000000000000000000000000003'' = Inr 3"
    by (simp add: hexToNumber_def hexVal_def)
  have n: "int 3 < CURVE_n sampleEnv"
    by (simp add: sampleEnv_def)
  have co: "pointX sampleEnv (sampleEmb (int 3)) = 3" "pointY sampleEnv (sampleEmb (int 3)) = 10"
    by (simp_all add: sampleEnv_def sampleEmb_def)
  have d1: "1 \<le> (3::nat)"
    by simp
  from public_key_hex_format [OF sample_cyclic_curve d d1 n]
  obtain h where h: "getPublicKeyFromPrivateKey sampleEnv ''0000000000000000000000000000000000000000000000000000000000000003'' = Inr (''04'' @ h)"
      "length h = 128"
      "h = bytesToHex (numberToBytesBE 32 (pointX sampleEnv (sampleEmb (int 3))))
           @ bytesToHex (numberToBytesBE 32 (pointY sampleEnv (sampleEmb (int 3))))"
    by blast
  from h(3) have "h = bytesToHex (numberToBytesBE 32 3) @ bytesToHex (numberToBytesBE 32 10)"
    unfolding co .
  with h(1,2) sample_cyclic_curve d n show ?thesis
    by blast
qed

lemma sm2_base_hex:
  "numberToHexUnpadded sm2_gx = ''32c4ae2c1f1981195f9904466a39c9948fe30bbff2660be1715a4589334c74c7''" "numberToHexUnpadded sm2_gy = ''bc3736a2f4f6779c59bdcee36b692153d0a9877cc62a474002df32e52139f0a0''"
  by (simp_all add: numberToHexUnpadded_def toString16.simps hexChar_def sm2_gx_def sm2_gy_def)

text \<open>
  The public key of the private key 1 on the SM2 curve, as \<open>getPublicKeyFromPrivateKey\<close>
  returns it: 130 characters, beginning with \<open>04\<close>.
\<close>

theorem public_key_130_chars:
  "getPublicKeyFromPrivateKey sm2Env ''0000000000000000000000000000000000000000000000000000000000000001'' = Inr ''0432c4ae2c1f1981195f9904466a39c9948fe30bbff2660be1715a4589334c74c7bc3736a2f4f6779c59bdcee36b692153d0a9877cc62a474002df32e52139f0a0''
   \<and> length ''0432c4ae2c1f1981195f9904466a39c9948fe30bbff2660be1715a4589334c74c7bc3736a2f4f6779c59bdcee36b692153d0a9877cc62a474002df32e52139f0a0'' = 130 \<and> take 2 ''0432c4ae2c1f1981195f9904466a39c9948fe30bbff2660be1715a4589334c74c7bc3736a2f4f6779c59bdcee36b692153d0a9877cc62a474002df32e52139f0a0'' = ''04''"
proof -
  have d: "hexToNumber ''0000000000000000000000000000000000000000000000000000000000000001'' = Inr 1"
    by (simp add: hexToNumber_def hexVal_def)
  have m1: "multiply sm2Env (BASE sm2Env) 1 = Inr (Point sm2_gx sm2_gy)"
    using sm2_mul_one [of "Point sm2_gx sm2_gy"] by (simp add: sm2Env_def sm2_n_def)
  have co: "pointX sm2Env (Point sm2_gx sm2_gy) = sm2_gx" "pointY sm2Env (Point sm2_gx sm2_gy) = sm2_gy"
    by (simp_all add: sm2Env_def sm2_x_def sm2_y_def)
  have b: "sm2_gx < 2 ^ 256" "sm2_gy < 2 ^ 256"
    by (simp_all add: sm2_gx_def sm2_gy_def)
  have "bytesToHex (toRawBytes sm2Env (Point sm2_gx sm2_gy))
      = ''04'' @ leftPad (numberToHexUnpadded sm2_gx) 64 @ leftPad (numberToHexUnpadded sm2_gy) 64"
    using toHex_split [of sm2Env "Point sm2_gx sm2_gy"]
    by (simp add: toHex_def co bytesToHex_append coordHex [OF b(1)] coordHex [OF b(2)])
  also have "\<dots> = ''0432c4ae2c1f1981195f9904466a39c9948fe30bbff2660be1715a4589334c74c7bc3736a2f4f6779c59bdcee36b692153d0a9877cc62a474002df32e52139f0a0''"
    by (simp add: sm2_base_hex leftPad_def)
  finally have "bytesToHex (toRawBytes sm2Env (Point sm2_gx sm2_gy)) = ''0432c4ae2c1f1981195f9904466a39c9948fe30bbff2660be1715a4589334c74c7bc3736a2f4f6779c59bdcee36b692153d0a9877cc62a474002df32e52139f0a0''" .
  then have "getPublicKeyFromPrivateKey sm2Env ''0000000000000000000000000000000000000000000000000000000000000001'' = Inr ''0432c4ae2c1f1981195f9904466a39c9948fe30bbff2660be1715a4589334c74c7bc3736a2f4f6779c59bdcee36b692153d0a9877cc62a474002df32e52139f0a0''"
    by (simp add: getPublicKeyFromPrivateKey_def getPublicKey_def d m1 leftPad_def)
  then show ?thesis
    by simp
qed


end
